theory Spec2Isabelle
  imports Complex_Main
begin

section \<open>Values and errors\<close>

text \<open>
  The program computes with double precision numbers (numpy float64). A value is a finite
  number, given by the real it denotes, or one of the three special values of the
  arithmetic. The sign of a zero is not represented.
\<close>

datatype fval = Fin real | PInf | NInf | NaN

text \<open>The exceptions the program raises.\<close>

datatype error = MissingKey string | ValueError | IndexError

fun is_fin :: "fval \<Rightarrow> bool" where
  "is_fin (Fin r) = True"
| "is_fin v = False"

fun real_of :: "fval \<Rightarrow> real" where
  "real_of (Fin r) = r"
| "real_of v = 0"

subsection \<open>Rounding\<close>

text \<open>
  An operation on finite numbers returns its exact result rounded. Rounding to the
  nearest integer, a tie going to the even one:
\<close>

definition round_half_even :: "real \<Rightarrow> int" where
  "round_half_even r =
     (let f = \<lfloor>r\<rfloor>; d = r - of_int f
      in if d < 1 / 2 then f else if 1 / 2 < d then f + 1 else if even f then f else f + 1)"

text \<open>
  The rounding of float64: a significand of 53 bits, the least exponent \<open>- 1074\<close> (so
  that a result below half of the least positive number becomes zero), and an infinity
  where the rounded magnitude reaches \<open>2 ^ 1024\<close>.
\<close>

definition round64 :: "real \<Rightarrow> fval" where
  "round64 r =
     (if r = 0 then Fin 0
      else
        (let e = max (\<lfloor>log 2 \<bar>r\<bar>\<rfloor> - 52) (- 1074);
             v = of_int (round_half_even (r / 2 powi e)) * 2 powi e
         in if 2 ^ 1024 \<le> \<bar>v\<bar> then (if 0 < r then PInf else NInf) else Fin v))"

text \<open>
  A component of a state vector far below the square root of the least positive float64,
  for the example of underflow.
\<close>

definition tiny :: real where
  "tiny = 2 powi (- 600)"

subsection \<open>Arithmetic\<close>

text \<open>
  The operations take the rounding \<open>rnd\<close> as their first argument: it maps the exact
  result of an operation on finite numbers to the value the operation returns. With
  \<open>round64\<close> they are the operations of the program; with \<open>Fin\<close> they are those of real
  arithmetic, without rounding, overflow and underflow, in which a claim about exact
  equality is read. The special values follow the rules of the floating point standard
  whatever the rounding is.
\<close>

fun fneg :: "fval \<Rightarrow> fval" where
  "fneg (Fin a) = Fin (- a)"
| "fneg PInf = NInf"
| "fneg NInf = PInf"
| "fneg NaN = NaN"

fun fadd :: "(real \<Rightarrow> fval) \<Rightarrow> fval \<Rightarrow> fval \<Rightarrow> fval" where
  "fadd rnd (Fin a) (Fin b) = rnd (a + b)"
| "fadd rnd NaN v = NaN"
| "fadd rnd v NaN = NaN"
| "fadd rnd PInf NInf = NaN"
| "fadd rnd NInf PInf = NaN"
| "fadd rnd PInf v = PInf"
| "fadd rnd v PInf = PInf"
| "fadd rnd NInf v = NInf"
| "fadd rnd v NInf = NInf"

definition fsub :: "(real \<Rightarrow> fval) \<Rightarrow> fval \<Rightarrow> fval \<Rightarrow> fval" where
  "fsub rnd a b = fadd rnd a (fneg b)"

text \<open>The sign of an infinite product; zero times an infinity is not a number.\<close>

definition inf_of_sign :: "bool \<Rightarrow> fval" where
  "inf_of_sign positive = (if positive then PInf else NInf)"

fun fmul :: "(real \<Rightarrow> fval) \<Rightarrow> fval \<Rightarrow> fval \<Rightarrow> fval" where
  "fmul rnd (Fin a) (Fin b) = rnd (a * b)"
| "fmul rnd NaN v = NaN"
| "fmul rnd v NaN = NaN"
| "fmul rnd (Fin a) PInf = (if a = 0 then NaN else inf_of_sign (0 < a))"
| "fmul rnd (Fin a) NInf = (if a = 0 then NaN else inf_of_sign (a < 0))"
| "fmul rnd PInf (Fin b) = (if b = 0 then NaN else inf_of_sign (0 < b))"
| "fmul rnd NInf (Fin b) = (if b = 0 then NaN else inf_of_sign (b < 0))"
| "fmul rnd PInf PInf = PInf"
| "fmul rnd PInf NInf = NInf"
| "fmul rnd NInf PInf = NInf"
| "fmul rnd NInf NInf = PInf"

text \<open>
  The three powers are computed by the \<^verbatim>\<open>pow\<close> function of the C library, whose result
  is taken to be the exact one rounded. \<^verbatim>\<open>v ** 2\<close>:
\<close>

fun fpow2 :: "(real \<Rightarrow> fval) \<Rightarrow> fval \<Rightarrow> fval" where
  "fpow2 rnd (Fin a) = rnd (a ^ 2)"
| "fpow2 rnd PInf = PInf"
| "fpow2 rnd NInf = PInf"
| "fpow2 rnd NaN = NaN"

text \<open>
  \<^verbatim>\<open>v ** 0.5\<close>. In \<^verbatim>\<open>n_body_func\<close> the argument is a sum of two squares, so the
  branches for a negative number and for the negative infinity are never taken there.
\<close>

fun fpow_half :: "(real \<Rightarrow> fval) \<Rightarrow> fval \<Rightarrow> fval" where
  "fpow_half rnd (Fin a) = (if 0 \<le> a then rnd (sqrt a) else NaN)"
| "fpow_half rnd PInf = PInf"
| "fpow_half rnd NInf = PInf"
| "fpow_half rnd NaN = NaN"

text \<open>
  \<^verbatim>\<open>v ** (-3)\<close> on a numpy float64, which is what an element of the array that the
  solver passes to \<^verbatim>\<open>n_body_func\<close> is: zero gives the positive infinity (with a warning,
  not an exception), an infinity gives zero. The argument in \<^verbatim>\<open>n_body_func\<close> is a square
  root, so a zero there is never the negative zero. (On a plain Python float the same
  expression raises \<^verbatim>\<open>ZeroDivisionError\<close>; such values reach \<^verbatim>\<open>n_body_func\<close> only when
  it is called directly on a list, not through \<^verbatim>\<open>calc_orbits\<close>, and the type of the
  state vector in this model, an array of float64, leaves them out.)
\<close>

fun fpow_m3 :: "(real \<Rightarrow> fval) \<Rightarrow> fval \<Rightarrow> fval" where
  "fpow_m3 rnd (Fin a) = (if a = 0 then PInf else rnd (a powi (- 3)))"
| "fpow_m3 rnd PInf = Fin 0"
| "fpow_m3 rnd NInf = Fin 0"
| "fpow_m3 rnd NaN = NaN"

section \<open>Bodies and their loading\<close>

text \<open>
  \<^verbatim>\<open>class Body\<close>: the attributes in the order \<^verbatim>\<open>__init__\<close> assigns them. The
  numeric attributes have type \<open>'a\<close> and the name has type \<open>'b\<close>, since the loader
  stores whatever the configuration holds.
\<close>

record ('a, 'b) Body =
  x :: 'a
  y :: 'a
  vx :: 'a
  vy :: 'a
  mass :: 'a
  name :: 'b

text \<open>\<^verbatim>\<open>Body.__init__(self, x, vx, y, vy, mass, name)\<close>: the parameters in declared order.\<close>

definition Body_init :: "'a \<Rightarrow> 'a \<Rightarrow> 'a \<Rightarrow> 'a \<Rightarrow> 'a \<Rightarrow> 'b \<Rightarrow> ('a, 'b) Body" where
  "Body_init px pvx py pvy pmass pname =
     \<lparr>x = px, y = py, vx = pvx, vy = pvy, mass = pmass, name = pname\<rparr>"

definition required_keys :: "string list" where
  "required_keys = [''x'', ''y'', ''vx'', ''vy'', ''mass'', ''name'']"

text \<open>The loop over \<^verbatim>\<open>required_keys\<close>: the first missing key raises.\<close>

fun check_keys :: "string list \<Rightarrow> (string \<rightharpoonup> 'v) \<Rightarrow> error + unit" where
  "check_keys [] b = Inr ()"
| "check_keys (k # ks) b = (if b k = None then Inl (MissingKey k) else check_keys ks b)"

definition load_body :: "(string \<rightharpoonup> 'v) \<Rightarrow> error + ('v, 'v) Body" where
  "load_body b =
     (case check_keys required_keys b of
        Inl e \<Rightarrow> Inl e
      | Inr u \<Rightarrow>
          (let bx = the (b ''x''); by = the (b ''y'');
               bvx = the (b ''vx''); bvy = the (b ''vy'');
               bname = the (b ''name'');
               bmass = the (b ''mass'')
           in Inr (Body_init bx by bvx bvy bmass bname)))"

fun load_bodies :: "(string \<rightharpoonup> 'v) list \<Rightarrow> error + ('v, 'v) Body list" where
  "load_bodies [] = Inr []"
| "load_bodies (b # config) =
     (case load_body b of
        Inl e \<Rightarrow> Inl e
      | Inr body \<Rightarrow>
          (case load_bodies config of
             Inl e \<Rightarrow> Inl e
           | Inr bodies \<Rightarrow> Inr (body # bodies)))"

text \<open>\<^verbatim>\<open>set_initial\<close>: four values per body, appended in list order.\<close>

fun set_initial :: "('a, 'b) Body list \<Rightarrow> 'a list" where
  "set_initial [] = []"
| "set_initial (body # bodies) = [x body, vx body, y body, vy body] @ set_initial bodies"


section \<open>Arrays\<close>

text \<open>Reading \<^verbatim>\<open>a[i]\<close> with \<open>i \<ge> 0\<close>: out of range raises.\<close>

definition getitem :: "'a list \<Rightarrow> nat \<Rightarrow> error + 'a" where
  "getitem a i = (if i < length a then Inr (a ! i) else Inl IndexError)"

text \<open>Writing \<^verbatim>\<open>a[i] = v\<close> with \<open>i \<ge> 0\<close>.\<close>

definition setitem :: "'a list \<Rightarrow> nat \<Rightarrow> 'a \<Rightarrow> error + 'a list" where
  "setitem a i v = (if i < length a then Inr (a[i := v]) else Inl IndexError)"

text \<open>\<^verbatim>\<open>np.zeros(n)\<close>\<close>

definition zeros :: "nat \<Rightarrow> fval list" where
  "zeros n = replicate n (Fin 0)"

text \<open>
  The positions selected by the slice \<^verbatim>\<open>[start:stop:step]\<close> of an array of length
  \<open>n\<close>, for non-negative bounds and a positive step.
\<close>

definition in_slice :: "nat \<Rightarrow> nat \<Rightarrow> nat \<Rightarrow> nat \<Rightarrow> bool" where
  "in_slice start stop step k \<longleftrightarrow> start \<le> k \<and> k < stop \<and> (k - start) mod step = 0"

definition slice_indices :: "nat \<Rightarrow> nat \<Rightarrow> nat \<Rightarrow> nat \<Rightarrow> nat list" where
  "slice_indices start stop step n = filter (in_slice start stop step) [0..<n]"

text \<open>Reading \<^verbatim>\<open>a[start:stop:step]\<close>.\<close>

definition get_slice :: "nat \<Rightarrow> nat \<Rightarrow> nat \<Rightarrow> 'a list \<Rightarrow> 'a list" where
  "get_slice start stop step a = map ((!) a) (slice_indices start stop step (length a))"

text \<open>
  Writing \<^verbatim>\<open>a[start:stop:step] = rhs\<close> on a numpy array: the right-hand side must have
  as many elements as the slice selects, or exactly one (which is then broadcast);
  anything else raises. Position \<open>k\<close> of the slice receives element
  \<open>(k - start) div step\<close> of the right-hand side.
\<close>

definition set_slice :: "nat \<Rightarrow> nat \<Rightarrow> nat \<Rightarrow> 'a list \<Rightarrow> 'a list \<Rightarrow> error + 'a list" where
  "set_slice start stop step a rhs =
     (let m = length (slice_indices start stop step (length a)) in
      if length rhs = m then
        Inr (map (\<lambda>k. if in_slice start stop step k then rhs ! ((k - start) div step) else a ! k)
               [0..<length a])
      else if length rhs = 1 then
        Inr (map (\<lambda>k. if in_slice start stop step k then rhs ! 0 else a ! k) [0..<length a])
      else Inl ValueError)"

section \<open>The force field evaluator\<close>

text \<open>\<^verbatim>\<open>G = 1\<close>\<close>

definition G :: real where
  "G = 1"

text \<open>
  The inner loop of \<^verbatim>\<open>n_body_func\<close> over \<^verbatim>\<open>enumerate(bodies)\<close>, for body \<open>i\<close> at
  \<open>(x_pos_body, y_pos_body)\<close>, threading the two accumulators.
\<close>

fun inner_loop ::
  "(real \<Rightarrow> fval) \<Rightarrow> fval list \<Rightarrow> nat \<Rightarrow> fval \<Rightarrow> fval \<Rightarrow> (nat \<times> (fval, 'b) Body) list \<Rightarrow> fval \<times> fval
     \<Rightarrow> error + fval \<times> fval" where
  "inner_loop rnd pos_vel_array i x_pos_body y_pos_body [] acc = Inr acc"
| "inner_loop rnd pos_vel_array i x_pos_body y_pos_body ((j, other_body) # rest)
       (dx_vel_body, dy_vel_body) =
     (if i \<noteq> j then
        (case getitem pos_vel_array (j * 4) of
           Inl e \<Rightarrow> Inl e
         | Inr x_pos_other_body \<Rightarrow>
             (case getitem pos_vel_array (j * 4 + 2) of
                Inl e \<Rightarrow> Inl e
              | Inr y_pos_other_body \<Rightarrow>
                  (let mass_other_body = mass other_body;
                       r = fpow_half rnd (fadd rnd (fpow2 rnd (fsub rnd x_pos_body x_pos_other_body))
                                           (fpow2 rnd (fsub rnd y_pos_body y_pos_other_body)))
                   in inner_loop rnd pos_vel_array i x_pos_body y_pos_body rest
                        (fadd rnd dx_vel_body
                           (fmul rnd (fmul rnd (fmul rnd (Fin (- G)) mass_other_body)
                                       (fsub rnd x_pos_body x_pos_other_body))
                                 (fpow_m3 rnd r)),
                         fadd rnd dy_vel_body
                           (fmul rnd (fmul rnd (fmul rnd (Fin (- G)) mass_other_body)
                                       (fsub rnd y_pos_body y_pos_other_body))
                                 (fpow_m3 rnd r))))))
      else inner_loop rnd pos_vel_array i x_pos_body y_pos_body rest (dx_vel_body, dy_vel_body))"

text \<open>
  The outer loop over \<^verbatim>\<open>enumerate(bodies)\<close>: the first argument is what is left to
  visit, \<open>bodies\<close> is the whole enumerated list for the inner loop, and the derivative array
  is threaded through.
\<close>

fun outer_loop ::
  "(real \<Rightarrow> fval) \<Rightarrow> (nat \<times> (fval, 'b) Body) list \<Rightarrow> fval list \<Rightarrow> (nat \<times> (fval, 'b) Body) list \<Rightarrow> fval list
     \<Rightarrow> error + fval list" where
  "outer_loop rnd [] pos_vel_array bodies dpos_vel_array = Inr dpos_vel_array"
| "outer_loop rnd ((i, body) # rest) pos_vel_array bodies dpos_vel_array =
     (case getitem pos_vel_array (i * 4) of
        Inl e \<Rightarrow> Inl e
      | Inr x_pos_body \<Rightarrow>
          (case getitem pos_vel_array (i * 4 + 2) of
             Inl e \<Rightarrow> Inl e
           | Inr y_pos_body \<Rightarrow>
               (case inner_loop rnd pos_vel_array i x_pos_body y_pos_body bodies (Fin 0, Fin 0) of
                  Inl e \<Rightarrow> Inl e
                | Inr (dx_vel_body, dy_vel_body) \<Rightarrow>
                    (case setitem dpos_vel_array (i * 4 + 1) dx_vel_body of
                       Inl e \<Rightarrow> Inl e
                     | Inr d1 \<Rightarrow>
                         (case setitem d1 (i * 4 + 3) dy_vel_body of
                            Inl e \<Rightarrow> Inl e
                          | Inr d2 \<Rightarrow> outer_loop rnd rest pos_vel_array bodies d2)))))"

text \<open>\<^verbatim>\<open>enumerate\<close>\<close>

definition enumerate_list :: "'a list \<Rightarrow> (nat \<times> 'a) list" where
  "enumerate_list xs = zip [0..<length xs] xs"

text \<open>\<^verbatim>\<open>n_body_func(t, pos_vel_array, bodies)\<close>; the time \<open>t\<close> is not used.\<close>

definition n_body_func :: "(real \<Rightarrow> fval) \<Rightarrow> real \<Rightarrow> fval list \<Rightarrow> (fval, 'b) Body list \<Rightarrow> error + fval list" where
  "n_body_func rnd t pos_vel_array bodies =
     (let dpos_vel_array = zeros (4 * length bodies) in
      case set_slice 0 (length dpos_vel_array) 4 dpos_vel_array
             (get_slice 1 (length pos_vel_array) 4 pos_vel_array) of
        Inl e \<Rightarrow> Inl e
      | Inr d1 \<Rightarrow>
          (case set_slice 2 (length d1) 4 d1
                  (get_slice 3 (length pos_vel_array) 4 pos_vel_array) of
             Inl e \<Rightarrow> Inl e
           | Inr d2 \<Rightarrow>
               outer_loop rnd (enumerate_list bodies) pos_vel_array (enumerate_list bodies) d2))"

section \<open>The evaluator in closed form\<close>

text \<open>
  The contribution of one other body at \<open>(xo, yo)\<close> with mass \<open>m\<close> to the acceleration
  of the body at \<open>(xb, yb)\<close>, as the two accumulator updates of the inner loop compute it.
\<close>

definition pair_term :: "(real \<Rightarrow> fval) \<Rightarrow> fval \<Rightarrow> fval \<Rightarrow> fval \<Rightarrow> fval \<Rightarrow> fval \<Rightarrow> fval \<times> fval" where
  "pair_term rnd xb yb xo yo m =
     (let r = fpow_half rnd (fadd rnd (fpow2 rnd (fsub rnd xb xo)) (fpow2 rnd (fsub rnd yb yo)))
      in (fmul rnd (fmul rnd (fmul rnd (Fin (- G)) m) (fsub rnd xb xo)) (fpow_m3 rnd r),
          fmul rnd (fmul rnd (fmul rnd (Fin (- G)) m) (fsub rnd yb yo)) (fpow_m3 rnd r)))"

text \<open>The inner loop when every read is in range.\<close>

fun inner_acc ::
  "(real \<Rightarrow> fval) \<Rightarrow> fval list \<Rightarrow> nat \<Rightarrow> fval \<Rightarrow> fval \<Rightarrow> (nat \<times> (fval, 'b) Body) list \<Rightarrow> fval \<times> fval
     \<Rightarrow> fval \<times> fval" where
  "inner_acc rnd pv i xb yb [] acc = acc"
| "inner_acc rnd pv i xb yb ((j, b) # rest) acc =
     (if i \<noteq> j then
        inner_acc rnd pv i xb yb rest
          (fadd rnd (fst acc) (fst (pair_term rnd xb yb (pv ! (j * 4)) (pv ! (j * 4 + 2)) (mass b))),
           fadd rnd (snd acc) (snd (pair_term rnd xb yb (pv ! (j * 4)) (pv ! (j * 4 + 2)) (mass b))))
      else inner_acc rnd pv i xb yb rest acc)"

definition accel :: "(real \<Rightarrow> fval) \<Rightarrow> fval list \<Rightarrow> (fval, 'b) Body list \<Rightarrow> nat \<Rightarrow> fval \<times> fval" where
  "accel rnd pv bodies i =
     inner_acc rnd pv i (pv ! (i * 4)) (pv ! (i * 4 + 2)) (enumerate_list bodies) (Fin 0, Fin 0)"

text \<open>The derivative array after the bodies in \<open>I\<close> have been visited by the outer loop.\<close>

definition outer_result ::
  "(real \<Rightarrow> fval) \<Rightarrow> nat set \<Rightarrow> fval list \<Rightarrow> (fval, 'b) Body list \<Rightarrow> fval list \<Rightarrow> nat \<Rightarrow> fval" where
  "outer_result rnd I pv bodies d k =
     (if k mod 4 = 1 \<and> k div 4 \<in> I then fst (accel rnd pv bodies (k div 4))
      else if k mod 4 = 3 \<and> k div 4 \<in> I then snd (accel rnd pv bodies (k div 4))
      else d ! k)"

text \<open>Component \<open>k\<close> of the derivative of a state vector of the right length.\<close>

definition deriv_at :: "(real \<Rightarrow> fval) \<Rightarrow> fval list \<Rightarrow> (fval, 'b) Body list \<Rightarrow> nat \<Rightarrow> fval" where
  "deriv_at rnd pv bodies k =
     (if k mod 4 = 0 then pv ! (4 * (k div 4) + 1)
      else if k mod 4 = 2 then pv ! (4 * (k div 4) + 3)
      else if k mod 4 = 1 then fst (accel rnd pv bodies (k div 4))
      else snd (accel rnd pv bodies (k div 4)))"

section \<open>Newton's law in the words of the specification\<close>

text \<open>
  The acceleration of body \<open>i\<close>: the sum over every other body \<open>j\<close> of
  \<open>- G * mass j * (pos i - pos j) / |pos i - pos j| ^ 3\<close>, over the reals, for masses
  \<open>ms\<close> and a state vector \<open>s\<close> laid out as \<open>[x, vx, y, vy]\<close> per body.
\<close>

definition distance :: "real list \<Rightarrow> nat \<Rightarrow> nat \<Rightarrow> real" where
  "distance s i j = sqrt ((s ! (4 * i) - s ! (4 * j)) ^ 2 + (s ! (4 * i + 2) - s ! (4 * j + 2)) ^ 2)"

definition gravity_x :: "real list \<Rightarrow> real list \<Rightarrow> nat \<Rightarrow> real" where
  "gravity_x ms s i =
     (\<Sum>j \<in> {..<length ms} - {i}. - G * ms ! j * (s ! (4 * i) - s ! (4 * j)) / distance s i j ^ 3)"

definition gravity_y :: "real list \<Rightarrow> real list \<Rightarrow> nat \<Rightarrow> real" where
  "gravity_y ms s i =
     (\<Sum>j \<in> {..<length ms} - {i}.
        - G * ms ! j * (s ! (4 * i + 2) - s ! (4 * j + 2)) / distance s i j ^ 3)"

text \<open>No two bodies of a state vector for \<open>n\<close> bodies are at the same position.\<close>

definition distinct_positions :: "nat \<Rightarrow> 'a list \<Rightarrow> bool" where
  "distinct_positions n s \<longleftrightarrow>
     (\<forall>i < n. \<forall>j < n. i \<noteq> j \<longrightarrow> \<not> (s ! (4 * i) = s ! (4 * j) \<and> s ! (4 * i + 2) = s ! (4 * j + 2)))"

definition masses :: "(fval, 'b) Body list \<Rightarrow> real list" where
  "masses bodies = map (\<lambda>b. real_of (mass b)) bodies"

text \<open>
  The four values a configuration entry gives for one body, in the order \<open>x, y, vx, vy\<close>.
\<close>

definition config_values :: "(string \<rightharpoonup> 'v) \<Rightarrow> 'v list" where
  "config_values b = [the (b ''x''), the (b ''y''), the (b ''vx''), the (b ''vy'')]"

section \<open>The trajectory integrator\<close>

text \<open>
  Modelled from the spec: \<^verbatim>\<open>np.linspace\<close> is a function of the numpy library and is not
  part of the repository. The specification describes the output time grid as evenly
  spaced values from \<open>t0\<close> to \<open>t1\<close> inclusive, their number given by the caller. The
  definition follows the library's computation: a negative number of samples raises, the
  step is \<open>(stop - start) / (num - 1)\<close>, sample \<open>i\<close> is \<open>i * step + start\<close>, and with more
  than one sample the last one is set to \<open>stop\<close>. The times are the reals of this
  computation: the specification describes the grid, not its rounding.
\<close>

definition linspace :: "real \<Rightarrow> real \<Rightarrow> int \<Rightarrow> error + real list" where
  "linspace start stop num =
     (if num < 0 then Inl ValueError
      else
        (let n = nat num;
             divisor = n - 1;
             delta = stop - start;
             step = (if divisor > 0 then delta / real divisor else delta);
             samples = map (\<lambda>i. real i * step + start) [0..<n]
         in Inr (if n > 1 then samples[n - 1 := stop] else samples)))"

text \<open>\<^verbatim>\<open>np.zeros((rows, cols))\<close>: a list of rows.\<close>

definition zeros2 :: "nat \<Rightarrow> nat \<Rightarrow> fval list list" where
  "zeros2 rows cols = replicate rows (zeros cols)"

text \<open>
  Writing \<^verbatim>\<open>y[i, :] = row\<close>: the row index must exist, and the right-hand side must have
  the length of a row, or exactly one element, which is then broadcast.
\<close>

definition set_row :: "fval list list \<Rightarrow> nat \<Rightarrow> fval list \<Rightarrow> error + fval list list" where
  "set_row a i row =
     (if i < length a then
        (if length row = length (a ! i) then Inr (a[i := row])
         else if length row = 1 then Inr (a[i := replicate (length (a ! i)) (row ! 0)])
         else Inl ValueError)
      else Inl IndexError)"

text \<open>
  The ODE solver \<^verbatim>\<open>scipy.integrate.ode\<close> with the \<^verbatim>\<open>dop853\<close> stepper belongs to a
  library, so it is a parameter of the model. \<open>ode_new f initial t0 params\<close> stands for
  \<^verbatim>\<open>ode(f).set_integrator('dop853', rtol=1e-6, atol=1e-10).set_initial_value(initial, t0).set_f_params(params)\<close>,
  \<open>integrate\<close> advances the solver to a time and returns the state array there (or
  raises), and \<open>successful\<close> reads the status of the last step.
\<close>

record ('s, 'b) ode =
  ode_new :: "(real \<Rightarrow> fval list \<Rightarrow> (fval, 'b) Body list \<Rightarrow> error + fval list)
                \<Rightarrow> fval list \<Rightarrow> real \<Rightarrow> (fval, 'b) Body list \<Rightarrow> 's"
  integrate :: "'s \<Rightarrow> real \<Rightarrow> (error + fval list) \<times> 's"
  successful :: "'s \<Rightarrow> bool"

text \<open>
  The loop \<^verbatim>\<open>for i in range(1, len(t)): y[i, :] = integrator.integrate(t[i])\<close>, over the
  indices left to visit.
\<close>

fun integrate_loop ::
  "('s, 'b) ode \<Rightarrow> 's \<Rightarrow> nat list \<Rightarrow> real list \<Rightarrow> fval list list \<Rightarrow> error + fval list list" where
  "integrate_loop solver integrator [] t a = Inr a"
| "integrate_loop solver integrator (i # rest) t a =
     (case getitem t i of
        Inl e \<Rightarrow> Inl e
      | Inr ti \<Rightarrow>
          (case integrate solver integrator ti of
             (Inl e, integrator') \<Rightarrow> Inl e
           | (Inr row, integrator') \<Rightarrow>
               (case set_row a i row of
                  Inl e \<Rightarrow> Inl e
                | Inr a' \<Rightarrow> integrate_loop solver integrator' rest t a')))"

text \<open>
  \<^verbatim>\<open>calc_orbits(bodies, n_body_func, t0, t1, dt)\<close>; the second parameter of the source is
  called \<open>f\<close> here, and the solver is the additional first parameter.
\<close>

definition calc_orbits ::
  "('s, 'b) ode \<Rightarrow> (fval, 'b) Body list
     \<Rightarrow> (real \<Rightarrow> fval list \<Rightarrow> (fval, 'b) Body list \<Rightarrow> error + fval list)
     \<Rightarrow> real \<Rightarrow> real \<Rightarrow> int \<Rightarrow> error + fval list list" where
  "calc_orbits solver bodies f t0 t1 dt =
     (let initial = set_initial bodies in
      case linspace t0 t1 dt of
        Inl e \<Rightarrow> Inl e
      | Inr t \<Rightarrow>
          (let a = zeros2 (length t) (length bodies * 4) in
           case set_row a 0 initial of
             Inl e \<Rightarrow> Inl e
           | Inr a1 \<Rightarrow>
               (let integrator = ode_new solver f initial t0 bodies
                in integrate_loop solver integrator [1..<length t] t a1)))"

text \<open>
  What the successive \<open>integrate\<close> calls return for a list of target times, threading the
  solver's state; the first exception ends the sequence.
\<close>

fun integrate_all :: "('s, 'b) ode \<Rightarrow> 's \<Rightarrow> real list \<Rightarrow> error + fval list list" where
  "integrate_all solver integrator [] = Inr []"
| "integrate_all solver integrator (ti # ts) =
     (case integrate solver integrator ti of
        (Inl e, integrator') \<Rightarrow> Inl e
      | (Inr row, integrator') \<Rightarrow>
          (case integrate_all solver integrator' ts of
             Inl e \<Rightarrow> Inl e
           | Inr rows \<Rightarrow> Inr (row # rows)))"

text \<open>The solver's state after those calls.\<close>

fun integrator_after :: "('s, 'b) ode \<Rightarrow> 's \<Rightarrow> real list \<Rightarrow> 's" where
  "integrator_after solver integrator [] = integrator"
| "integrator_after solver integrator (ti # ts) =
     integrator_after solver (snd (integrate solver integrator ti)) ts"

subsection \<open>A stand-in solver\<close>

text \<open>
  A single explicit Euler step per call, in the arithmetic given by the rounding, used
  only to run \<open>calc_orbits\<close> on concrete inputs. It has the behaviour of the library's solver that \<open>calc_orbits\<close> can observe:
  \<open>integrate\<close> returns the new state array, an exception of the right-hand side
  propagates, and a step that produced a value that is not finite is recorded in the
  status that \<open>successful\<close> reads; it is not raised.
\<close>

record 'b euler_state =
  es_y :: "fval list"
  es_t :: real
  es_f :: "real \<Rightarrow> fval list \<Rightarrow> (fval, 'b) Body list \<Rightarrow> error + fval list"
  es_params :: "(fval, 'b) Body list"
  es_ok :: bool

definition euler_integrate :: "(real \<Rightarrow> fval) \<Rightarrow> 'b euler_state \<Rightarrow> real \<Rightarrow> (error + fval list) \<times> 'b euler_state" where
  "euler_integrate rnd st t =
     (case es_f st (es_t st) (es_y st) (es_params st) of
        Inl e \<Rightarrow> (Inl e, st\<lparr>es_ok := False\<rparr>)
      | Inr dy \<Rightarrow>
          (let y' = map (\<lambda>(v, d). fadd rnd v (fmul rnd (rnd (t - es_t st)) d)) (zip (es_y st) dy)
           in (Inr y', st\<lparr>es_y := y', es_t := t, es_ok := list_all is_fin y'\<rparr>)))"

definition euler :: "(real \<Rightarrow> fval) \<Rightarrow> ('b euler_state, 'b) ode" where
  "euler rnd =
     \<lparr>ode_new = (\<lambda>f initial t0 ps. \<lparr>es_y = initial, es_t = t0, es_f = f, es_params = ps, es_ok = True\<rparr>),
      integrate = euler_integrate rnd,
      successful = es_ok\<rparr>"

section \<open>Column labels of the stored table\<close>

text \<open>
  \<^verbatim>\<open>store_orbits\<close> puts the trajectory in a data frame, whose columns are first labelled
  by their positions, renames the four columns of each body and writes the frame with its
  header line to a file. A label is a position or a name.
\<close>

datatype label = Position nat | Named string

text \<open>
  \<^verbatim>\<open>rename_spec\<close> for body \<open>i\<close>: a dictionary from four positions to names.
\<close>

definition rename_spec :: "nat \<Rightarrow> string \<Rightarrow> (nat \<rightharpoonup> string)" where
  "rename_spec i body_name =
     [i * 4 \<mapsto> body_name @ ''_x'',
      i * 4 + 1 \<mapsto> body_name @ ''_vx'',
      i * 4 + 2 \<mapsto> body_name @ ''_y'',
      i * 4 + 3 \<mapsto> body_name @ ''_vy'']"

text \<open>
  \<^verbatim>\<open>orbits_df.rename(columns=rename_spec, inplace=True)\<close>: a label that is a key of the
  dictionary is replaced; the keys are positions, so a name is never replaced.
\<close>

definition rename_columns :: "(nat \<rightharpoonup> string) \<Rightarrow> label list \<Rightarrow> label list" where
  "rename_columns spec cols =
     map (\<lambda>c. case c of
                 Position k \<Rightarrow> (case spec k of None \<Rightarrow> Position k | Some nm \<Rightarrow> Named nm)
               | Named nm \<Rightarrow> Named nm) cols"

text \<open>The loop \<^verbatim>\<open>for i in range(len(bodies))\<close> over the indices left to visit.\<close>

fun rename_loop :: "nat list \<Rightarrow> ('a, string) Body list \<Rightarrow> label list \<Rightarrow> error + label list" where
  "rename_loop [] bodies cols = Inr cols"
| "rename_loop (i # rest) bodies cols =
     (case getitem bodies i of
        Inl e \<Rightarrow> Inl e
      | Inr body \<Rightarrow> rename_loop rest bodies (rename_columns (rename_spec i (name body)) cols))"

text \<open>
  The header that \<^verbatim>\<open>store_orbits\<close> writes for a trajectory: one label per column of the
  array. The writing of the file itself is not modelled. An array is a list of rows here,
  so the number of columns is read from the first row, and an array without rows has no
  columns, whatever the second component of its shape was in the program; \<open>calc_orbits\<close>
  never returns such an array, since the assignment of the initial row raises on it.
\<close>

definition store_orbits_header :: "('a, string) Body list \<Rightarrow> fval list list \<Rightarrow> error + label list" where
  "store_orbits_header bodies orbit_paths =
     rename_loop [0..<length bodies] bodies
       (map Position [0..<(case orbit_paths of [] \<Rightarrow> 0 | row # rows \<Rightarrow> length row)])"

text \<open>
  The label of column \<open>k\<close> once the bodies in \<open>I\<close> have been renamed: the body is
  \<open>k div 4\<close> and the component is \<open>k mod 4\<close>.
\<close>

definition suffix_of :: "nat \<Rightarrow> string" where
  "suffix_of r = (if r = 0 then ''_x'' else if r = 1 then ''_vx'' else if r = 2 then ''_y'' else ''_vy'')"

definition labelled :: "nat set \<Rightarrow> ('a, string) Body list \<Rightarrow> nat \<Rightarrow> label" where
  "labelled I bodies k =
     (if k div 4 \<in> I then Named (name (bodies ! (k div 4)) @ suffix_of (k mod 4)) else Position k)"

section \<open>The evaluator on a store\<close>

text \<open>
  To state what \<^verbatim>\<open>n_body_func\<close> writes, arrays and \<^verbatim>\<open>Body\<close> objects live in a store and
  are named by addresses. The addresses below \<open>lim\<close> are in use; a new array takes the
  address \<open>lim\<close>.
\<close>

record 'b store =
  arrays :: "nat \<Rightarrow> fval list"
  objects :: "nat \<Rightarrow> (fval, 'b) Body"
  lim :: nat

text \<open>\<^verbatim>\<open>np.zeros(n)\<close> and every other creation of an array.\<close>

definition new_array :: "fval list \<Rightarrow> 'b store \<Rightarrow> nat \<times> 'b store" where
  "new_array a st = (lim st, st\<lparr>arrays := (arrays st)(lim st := a), lim := Suc (lim st)\<rparr>)"

text \<open>An assignment into the array at address \<open>d\<close>.\<close>

definition write_array :: "nat \<Rightarrow> fval list \<Rightarrow> 'b store \<Rightarrow> 'b store" where
  "write_array d a st = st\<lparr>arrays := (arrays st)(d := a)\<rparr>"

text \<open>
  The inner loop reads the state vector at address \<open>p\<close> and the masses of the objects; it
  assigns to local variables only, so it returns no store.
\<close>

fun inner_loop_st ::
  "(real \<Rightarrow> fval) \<Rightarrow> 'b store \<Rightarrow> nat \<Rightarrow> nat \<Rightarrow> fval \<Rightarrow> fval \<Rightarrow> (nat \<times> nat) list \<Rightarrow> fval \<times> fval
     \<Rightarrow> error + fval \<times> fval" where
  "inner_loop_st rnd st p i x_pos_body y_pos_body [] acc = Inr acc"
| "inner_loop_st rnd st p i x_pos_body y_pos_body ((j, other_body) # rest)
       (dx_vel_body, dy_vel_body) =
     (if i \<noteq> j then
        (case getitem (arrays st p) (j * 4) of
           Inl e \<Rightarrow> Inl e
         | Inr x_pos_other_body \<Rightarrow>
             (case getitem (arrays st p) (j * 4 + 2) of
                Inl e \<Rightarrow> Inl e
              | Inr y_pos_other_body \<Rightarrow>
                  (let mass_other_body = mass (objects st other_body);
                       r = fpow_half rnd (fadd rnd (fpow2 rnd (fsub rnd x_pos_body x_pos_other_body))
                                           (fpow2 rnd (fsub rnd y_pos_body y_pos_other_body)))
                   in inner_loop_st rnd st p i x_pos_body y_pos_body rest
                        (fadd rnd dx_vel_body
                           (fmul rnd (fmul rnd (fmul rnd (Fin (- G)) mass_other_body)
                                       (fsub rnd x_pos_body x_pos_other_body))
                                 (fpow_m3 rnd r)),
                         fadd rnd dy_vel_body
                           (fmul rnd (fmul rnd (fmul rnd (Fin (- G)) mass_other_body)
                                       (fsub rnd y_pos_body y_pos_other_body))
                                 (fpow_m3 rnd r))))))
      else inner_loop_st rnd st p i x_pos_body y_pos_body rest (dx_vel_body, dy_vel_body))"

text \<open>
  The outer loop writes two components of the array at address \<open>d\<close> in every round; it
  returns the store also when it ends with an exception.
\<close>

fun outer_loop_st ::
  "(real \<Rightarrow> fval) \<Rightarrow> (nat \<times> nat) list \<Rightarrow> nat \<Rightarrow> (nat \<times> nat) list \<Rightarrow> nat \<Rightarrow> 'b store
     \<Rightarrow> (error + unit) \<times> 'b store" where
  "outer_loop_st rnd [] p bodies d st = (Inr (), st)"
| "outer_loop_st rnd ((i, body) # rest) p bodies d st =
     (case getitem (arrays st p) (i * 4) of
        Inl e \<Rightarrow> (Inl e, st)
      | Inr x_pos_body \<Rightarrow>
          (case getitem (arrays st p) (i * 4 + 2) of
             Inl e \<Rightarrow> (Inl e, st)
           | Inr y_pos_body \<Rightarrow>
               (case inner_loop_st rnd st p i x_pos_body y_pos_body bodies (Fin 0, Fin 0) of
                  Inl e \<Rightarrow> (Inl e, st)
                | Inr (dx_vel_body, dy_vel_body) \<Rightarrow>
                    (case setitem (arrays st d) (i * 4 + 1) dx_vel_body of
                       Inl e \<Rightarrow> (Inl e, st)
                     | Inr a1 \<Rightarrow>
                         (let st1 = write_array d a1 st in
                          case setitem (arrays st1 d) (i * 4 + 3) dy_vel_body of
                            Inl e \<Rightarrow> (Inl e, st1)
                          | Inr a2 \<Rightarrow> outer_loop_st rnd rest p bodies d (write_array d a2 st1))))))"

text \<open>
  \<^verbatim>\<open>n_body_func(t, pos_vel_array, bodies)\<close> on the store: \<open>p\<close> is the address of the state
  vector, \<open>bodies\<close> are the addresses of the \<^verbatim>\<open>Body\<close> objects in list order, and the
  result is the address of the derivative array, or the exception, with the store left
  behind.
\<close>

definition n_body_func_st ::
  "(real \<Rightarrow> fval) \<Rightarrow> real \<Rightarrow> nat \<Rightarrow> nat list \<Rightarrow> 'b store \<Rightarrow> (error + nat) \<times> 'b store" where
  "n_body_func_st rnd t p bodies st =
     (let (d, st0) = new_array (zeros (4 * length bodies)) st in
      case set_slice 0 (length (arrays st0 d)) 4 (arrays st0 d)
             (get_slice 1 (length (arrays st0 p)) 4 (arrays st0 p)) of
        Inl e \<Rightarrow> (Inl e, st0)
      | Inr a1 \<Rightarrow>
          (let st1 = write_array d a1 st0 in
           case set_slice 2 (length (arrays st1 d)) 4 (arrays st1 d)
                  (get_slice 3 (length (arrays st1 p)) 4 (arrays st1 p)) of
             Inl e \<Rightarrow> (Inl e, st1)
           | Inr a2 \<Rightarrow>
               (let st2 = write_array d a2 st1 in
                case outer_loop_st rnd (enumerate_list bodies) p (enumerate_list bodies) d st2 of
                  (Inl e, st3) \<Rightarrow> (Inl e, st3)
                | (Inr u, st3) \<Rightarrow> (Inr d, st3))))"

text \<open>The bodies that a list of addresses denotes in a store.\<close>

definition bodies_of :: "'b store \<Rightarrow> nat list \<Rightarrow> (fval, 'b) Body list" where
  "bodies_of st bodies = map (objects st) bodies"

text \<open>An enumerated list of addresses with each address replaced by its object.\<close>

definition deref :: "'b store \<Rightarrow> (nat \<times> nat) list \<Rightarrow> (nat \<times> (fval, 'b) Body) list" where
  "deref st js = map (\<lambda>(j, r). (j, objects st r)) js"

section \<open>Properties of the rounding\<close>

lemma round64_zero [simp]: "round64 0 = Fin 0"
  by (simp add: round64_def)

lemma round_half_even_of_int: "round_half_even (of_int n) = n"
  by (simp add: round_half_even_def)

lemma round_half_even_small:
  assumes "\<bar>r\<bar> < 1 / 2"
  shows "round_half_even r = 0"
proof (cases "0 \<le> r")
  case True
  with assms have "\<lfloor>r\<rfloor> = 0"
    by (simp add: floor_eq_iff)
  with assms True show ?thesis
    by (simp add: round_half_even_def)
next
  case False
  with assms have f: "\<lfloor>r\<rfloor> = - 1"
    by (simp add: floor_eq_iff)
  from False assms have "1 / 2 < r - of_int (- 1 :: int)"
    by simp
  then show ?thesis
    using f by (simp add: round_half_even_def)
qed

lemma two_powi_pos: "0 < (2::real) powi e"
  by simp

lemma floor_log2_upper:
  assumes "0 < r" "r < 2 powi k"
  shows "\<lfloor>log 2 r\<rfloor> < k"
proof -
  have "r < 2 powr real_of_int k"
    using assms(2) by (simp add: powr_real_of_int')
  then have "log 2 r < real_of_int k"
    using assms(1) by (simp add: log_less_iff)
  then show ?thesis
    by (simp add: floor_less_iff)
qed

text \<open>
  A number with a significand of at most 53 bits and an exponent in range is a float64:
  rounding returns it.
\<close>

lemma round64_representable:
  assumes m: "\<bar>m\<bar> < 2 ^ 53" and e: "- 1074 \<le> e" "e \<le> 971"
  shows "round64 (of_int m * 2 powi e) = Fin (of_int m * 2 powi e)"
proof (cases "m = 0")
  case True
  then show ?thesis
    by simp
next
  case False
  define r :: real where "r = of_int m * 2 powi e"
  have r0: "r \<noteq> 0"
    using False by (simp add: r_def)
  have absr: "\<bar>r\<bar> = of_int \<bar>m\<bar> * 2 powi e"
    by (simp add: r_def abs_mult)
  have pos: "0 < \<bar>r\<bar>"
    using r0 by simp
  have "of_int \<bar>m\<bar> < (2::real) ^ 53"
    using m by (metis of_int_less_numeral_power_cancel_iff)
  then have "\<bar>r\<bar> < 2 ^ 53 * 2 powi e"
    unfolding absr using two_powi_pos [of e] by (simp add: mult_strict_right_mono)
  also have "(2::real) ^ 53 * 2 powi e = 2 powi (53 + e)"
    by (simp add: power_int_add)
  finally have up: "\<bar>r\<bar> < 2 powi (53 + e)" .
  define k where "k = \<lfloor>log 2 \<bar>r\<bar>\<rfloor>"
  have "k < 53 + e"
    unfolding k_def by (rule floor_log2_upper [OF pos up])
  then have ke: "k - 52 \<le> e"
    by simp
  define E where "E = max (k - 52) (- 1074)"
  have Ee: "E \<le> e"
    using ke e(1) by (simp add: E_def)
  define d where "d = nat (e - E)"
  have de: "e = E + int d"
    using Ee by (simp add: d_def)
  have split: "(2::real) powi e = 2 ^ d * 2 powi E"
    unfolding de by (simp add: power_int_add)
  have q: "r / 2 powi E = of_int (m * 2 ^ d)"
    using two_powi_pos [of E] by (simp add: r_def split)
  have v: "of_int (round_half_even (r / 2 powi E)) * 2 powi E = r"
    unfolding q round_half_even_of_int by (simp add: r_def split)
  have "\<bar>r\<bar> < 2 powi (53 + e)"
    by (rule up)
  also have "\<dots> \<le> 2 powi 1024"
    using e(2) by (intro power_int_increasing) simp_all
  finally have small: "\<not> 2 ^ 1024 \<le> \<bar>r\<bar>"
    by simp
  show ?thesis
    unfolding r_def [symmetric]
    using r0 small by (simp add: round64_def Let_def k_def [symmetric] E_def [symmetric] v)
qed

text \<open>Below half of the least positive float64 the result is zero.\<close>

lemma round64_underflow:
  assumes "\<bar>r\<bar> < 2 powi (- 1075)"
  shows "round64 r = Fin 0"
proof (cases "r = 0")
  case True
  then show ?thesis
    by simp
next
  case False
  then have pos: "0 < \<bar>r\<bar>"
    by simp
  define k where "k = \<lfloor>log 2 \<bar>r\<bar>\<rfloor>"
  have "k < - 1075"
    unfolding k_def by (rule floor_log2_upper [OF pos assms])
  then have E: "max (k - 52) (- 1074) = - 1074"
    by simp
  have "\<bar>r / 2 powi (- 1074)\<bar> = \<bar>r\<bar> / 2 powi (- 1074)"
    using two_powi_pos [of "- 1074"] by simp
  also have "\<dots> < 2 powi (- 1075) / 2 powi (- 1074)"
    using assms two_powi_pos [of "- 1074"] by (simp add: divide_strict_right_mono)
  also have "(2::real) powi (- 1075) / 2 powi (- 1074) = 2 powi (- 1075 - (- 1074))"
    by (subst power_int_diff) simp_all
  also have "\<dots> = 1 / 2"
    by simp
  finally have "round_half_even (r / 2 powi (- 1074)) = 0"
    by (rule round_half_even_small)
  then show ?thesis
    using False by (simp add: round64_def Let_def k_def [symmetric] E)
qed

text \<open>Integers below \<open>2 ^ 53\<close> in magnitude are float64.\<close>

lemma round64_of_int:
  assumes "\<bar>m\<bar> < 2 ^ 53"
  shows "round64 (of_int m) = Fin (of_int m)"
  using round64_representable [OF assms, of 0] by simp

lemma round64_one [simp]: "round64 1 = Fin 1"
  using round64_of_int [of 1] by simp

lemma round64_numeral [simp]:
  "(numeral k :: int) < 2 ^ 53 \<Longrightarrow> round64 (numeral k) = Fin (numeral k)"
  using round64_of_int [of "numeral k"] by simp

lemma round64_neg_numeral [simp]:
  "(numeral k :: int) < 2 ^ 53 \<Longrightarrow> round64 (- numeral k) = Fin (- numeral k)"
  using round64_of_int [of "- numeral k"] by simp

text \<open>The small number of the example is a float64, and so are its small multiples.\<close>

lemma tiny_pos: "0 < tiny"
  by (simp add: tiny_def)

lemma round64_tiny_multiple:
  assumes "\<bar>m\<bar> < 2 ^ 53"
  shows "round64 (of_int m * tiny) = Fin (of_int m * tiny)"
  unfolding tiny_def by (rule round64_representable [OF assms]) simp_all

lemma round64_tiny: "round64 tiny = Fin tiny"
  using round64_tiny_multiple [of 1] by simp

lemma round64_neg_tiny: "round64 (- tiny) = Fin (- tiny)"
  using round64_tiny_multiple [of "- 1"] by simp

lemma round64_numeral_tiny:
  "(numeral k :: int) < 2 ^ 53 \<Longrightarrow> round64 (numeral k * tiny) = Fin (numeral k * tiny)"
  using round64_tiny_multiple [of "numeral k"] by simp

lemma round64_neg_numeral_tiny:
  "(numeral k :: int) < 2 ^ 53 \<Longrightarrow> round64 (- (numeral k * tiny)) = Fin (- (numeral k * tiny))"
  using round64_tiny_multiple [of "- numeral k"] by simp

text \<open>Its square is not: it underflows to zero.\<close>

lemma round64_tiny_squared: "round64 (tiny ^ 2) = Fin 0"
proof (rule round64_underflow)
  have "tiny ^ 2 = 2 powi (- 1200)"
    unfolding tiny_def by (simp add: power2_eq_square flip: power_int_add)
  also have "\<dots> < 2 powi (- 1075)"
    by (rule power_int_strict_increasing) simp_all
  finally show "\<bar>tiny ^ 2\<bar> < 2 powi (- 1075)"
    by simp
qed

section \<open>Properties of the evaluator\<close>

subsection \<open>Slices with step four\<close>

lemma in_slice_4: "s < 4 \<Longrightarrow> in_slice s stop 4 k \<longleftrightarrow> k < stop \<and> k mod 4 = s"
proof -
  assume s: "s < 4"
  have "s \<le> k \<and> (k - s) mod 4 = 0 \<longleftrightarrow> k mod 4 = s"
  proof (cases "s \<le> k")
    case True
    then obtain m where m: "k = m + s" by (metis le_add_diff_inverse2)
    have "(m + s) mod 4 = s \<longleftrightarrow> m mod 4 = 0"
    proof
      assume "m mod 4 = 0"
      then have "(m + s) mod 4 = s mod 4" by (metis mod_add_left_eq add_0)
      with s show "(m + s) mod 4 = s" by simp
    next
      assume a: "(m + s) mod 4 = s"
      define r where "r = m mod 4"
      have r: "r < 4" by (simp add: r_def)
      have e: "(r + s) mod 4 = s" using a by (simp add: r_def mod_add_left_eq)
      show "m mod 4 = 0"
      proof (cases "r + s < 4")
        case True
        with e show ?thesis by (simp add: r_def)
      next
        case False
        then have "(r + s) mod 4 = (r + s - 4) mod 4" by (simp add: le_mod_geq)
        also have "\<dots> = r + s - 4" using r s by simp
        finally show ?thesis using e r False by simp
      qed
    qed
    with True m show ?thesis by simp
  next
    case False
    with s have "k mod 4 = k" "k \<noteq> s" by simp_all
    with False show ?thesis by simp
  qed
  then show ?thesis by (auto simp: in_slice_def)
qed


lemma upt_4_Suc: "[0..<4 * Suc n] = [0..<4 * n] @ [4 * n, 4 * n + 1, 4 * n + 2, 4 * n + 3]"
proof -
  have "[0..<4 * Suc n] = [0..<4 * n] @ [4 * n..<4 * n + 4]"
    by (metis add.commute mult_Suc_right le_add1 upt_add_eq_append add_0)
  moreover have "[4 * n..<4 * n + 4] = [4 * n, 4 * n + 1, 4 * n + 2, 4 * n + 3]"
    by (simp add: upt_conv_Cons)
  ultimately show ?thesis by simp
qed

lemma mod4_block: "(4 * n + r) mod 4 = r mod 4" for n r :: nat
  by (rule mod_mult_self4)

lemma slice_indices_4:
  assumes "s < 4"
  shows "slice_indices s (4 * n) 4 (4 * n) = map (\<lambda>i. 4 * i + s) [0..<n]"
proof -
  have "slice_indices s (4 * n) 4 (4 * n) = filter (\<lambda>k. k mod 4 = s) [0..<4 * n]"
    unfolding slice_indices_def by (rule filter_cong) (simp_all add: in_slice_4 [OF assms])
  also have "\<dots> = map (\<lambda>i. 4 * i + s) [0..<n]"
  proof (induction n)
    case 0
    show ?case by simp
  next
    case (Suc n)
    have m: "4 * n mod 4 = 0" "(4 * n + 1) mod 4 = 1" "(4 * n + 2) mod 4 = 2" "(4 * n + 3) mod 4 = 3"
      by (simp_all only: mod4_block [of n 1] mod4_block [of n 2] mod4_block [of n 3]
            mod4_block [of n 0, simplified]) simp_all
    from assms consider "s = 0" | "s = 1" | "s = 2" | "s = 3" by linarith
    then have "filter (\<lambda>k. k mod 4 = s) [4 * n, 4 * n + 1, 4 * n + 2, 4 * n + 3] = [4 * n + s]"
      by cases (simp_all only: filter.simps m, simp_all)
    then show ?case
      unfolding upt_4_Suc filter_append using Suc by simp
  qed
  finally show ?thesis .
qed

lemma get_slice_4:
  assumes "s < 4" "length a = 4 * n"
  shows "get_slice s (length a) 4 a = map (\<lambda>i. a ! (4 * i + s)) [0..<n]"
  using assms by (simp add: get_slice_def slice_indices_4 comp_def)

lemma set_slice_4:
  assumes "s < 4" "length a = 4 * n" "length rhs = n"
  shows "set_slice s (length a) 4 a rhs =
           Inr (map (\<lambda>k. if k mod 4 = s then rhs ! (k div 4) else a ! k) [0..<4 * n])"
proof -
  have "(if in_slice s (4 * n) 4 k then rhs ! ((k - s) div 4) else a ! k) =
        (if k mod 4 = s then rhs ! (k div 4) else a ! k)" if "k < 4 * n" for k
  proof -
    have "in_slice s (4 * n) 4 k \<longleftrightarrow> k mod 4 = s"
      using that by (simp add: in_slice_4 [OF assms(1)])
    moreover have "(k - s) div 4 = k div 4" if "k mod 4 = s"
    proof -
      have "k = 4 * (k div 4) + s" using that by (metis mult_div_mod_eq)
      then have "k - s = 4 * (k div 4)" by simp
      then show ?thesis by simp
    qed
    ultimately show ?thesis by simp
  qed
  then show ?thesis
    using assms by (simp add: set_slice_def slice_indices_4 Let_def)
qed

subsection \<open>The inner and the outer loop\<close>

lemma inner_loop_total:
  assumes "\<forall>(j, b) \<in> set js. j * 4 + 2 < length pv"
  shows "inner_loop rnd pv i xb yb js acc = Inr (inner_acc rnd pv i xb yb js acc)"
  using assms
proof (induction js arbitrary: acc)
  case Nil
  show ?case by simp
next
  case (Cons jb js)
  obtain j b where jb: "jb = (j, b)" by (cases jb)
  obtain dx dy where acc: "acc = (dx, dy)" by (cases acc)
  from Cons.prems jb have in_range: "j * 4 + 2 < length pv" and rest: "\<forall>(j, b) \<in> set js. j * 4 + 2 < length pv"
    by auto
  show ?case
    using in_range Cons.IH [OF rest]
    by (cases "i = j") (simp_all add: jb acc getitem_def pair_term_def Let_def)
qed

lemma idx_mod: "r < 4 \<Longrightarrow> (i * 4 + r) mod 4 = r" for i r :: nat
  by simp

lemma idx_div: "r < 4 \<Longrightarrow> (i * 4 + r) div 4 = i" for i r :: nat
  by simp

lemma idx_decomp: "k mod 4 = r \<Longrightarrow> k div 4 = i \<Longrightarrow> k = i * 4 + r" for k :: nat
  using div_mult_mod_eq [of k 4] by simp

lemma outer_loop_total:
  assumes "\<forall>(i, b) \<in> set rest. i * 4 + 3 < length d \<and> i * 4 + 2 < length pv"
    and "\<forall>(j, b) \<in> set (enumerate_list bodies). j * 4 + 2 < length pv"
  shows "outer_loop rnd rest pv (enumerate_list bodies) d =
           Inr (map (outer_result rnd (fst ` set rest) pv bodies d) [0..<length d])"
  using assms(1)
proof (induction rest arbitrary: d)
  case Nil
  show ?case by (simp add: outer_result_def map_nth)
next
  case (Cons ib rest)
  obtain i b where ib: "ib = (i, b)" by (cases ib)
  define ax where "ax = fst (accel rnd pv bodies i)"
  define ay where "ay = snd (accel rnd pv bodies i)"
  define d2 where "d2 = d[i * 4 + 1 := ax, i * 4 + 3 := ay]"
  from Cons.prems ib have r: "i * 4 + 3 < length d" "i * 4 + 2 < length pv"
    and rest: "\<forall>(i, b) \<in> set rest. i * 4 + 3 < length d2 \<and> i * 4 + 2 < length pv"
    by (auto simp: d2_def)
  have step: "outer_loop rnd (ib # rest) pv (enumerate_list bodies) d =
              outer_loop rnd rest pv (enumerate_list bodies) d2"
    using r by (simp add: ib getitem_def setitem_def inner_loop_total [OF assms(2)] accel_def
        d2_def ax_def ay_def split: prod.splits)
  have "outer_result rnd (fst ` set rest) pv bodies d2 k =
        outer_result rnd (fst ` set (ib # rest)) pv bodies d k" if "k < length d" for k
  proof -
    consider "k = i * 4 + 1" | "k = i * 4 + 3" | "k \<noteq> i * 4 + 1" "k \<noteq> i * 4 + 3" by blast
    then show ?thesis
    proof cases
      case 1
      then have "k mod 4 = 1" "k div 4 = i"
        using idx_mod [of 1 i] idx_div [of 1 i] by simp_all
      then show ?thesis using 1 r by (simp add: outer_result_def ib d2_def ax_def)
    next
      case 2
      then have "k mod 4 = 3" "k div 4 = i"
        using idx_mod [of 3 i] idx_div [of 3 i] by simp_all
      then show ?thesis using 2 r by (simp add: outer_result_def ib d2_def ay_def)
    next
      case 3
      then have "\<not> (k mod 4 = 1 \<and> k div 4 = i)" "\<not> (k mod 4 = 3 \<and> k div 4 = i)"
        using idx_decomp [of k 1 i] idx_decomp [of k 3 i] by auto
      then show ?thesis using 3 by (auto simp: outer_result_def ib d2_def)
    qed
  qed
  then have "map (outer_result rnd (fst ` set rest) pv bodies d2) [0..<length d2] =
             map (outer_result rnd (fst ` set (ib # rest)) pv bodies d) [0..<length d]"
    by (simp add: d2_def)
  with step Cons.IH [OF rest] show ?case by simp
qed

lemma n_body_func_eval:
  assumes len: "length pv = 4 * length bodies"
  shows "n_body_func rnd t pv bodies = Inr (map (deriv_at rnd pv bodies) [0..<4 * length bodies])"
proof -
  define n where "n = length bodies"
  define d1 where "d1 = map (\<lambda>k. if k mod 4 = 0 then map (\<lambda>i. pv ! (4 * i + 1)) [0..<n] ! (k div 4) else zeros (4 * n) ! k) [0..<4 * n]"
  define d2 where "d2 = map (\<lambda>k. if k mod 4 = 2 then map (\<lambda>i. pv ! (4 * i + 3)) [0..<n] ! (k div 4) else d1 ! k) [0..<4 * n]"
  have s1: "set_slice 0 (length (zeros (4 * n))) 4 (zeros (4 * n)) (get_slice 1 (length pv) 4 pv) = Inr d1"
    using len unfolding d1_def n_def
    by (subst get_slice_4 [where n = "length bodies"], simp, simp)
       (rule set_slice_4, simp_all add: zeros_def)
  have s2: "set_slice 2 (length d1) 4 d1 (get_slice 3 (length pv) 4 pv) = Inr d2"
    using len unfolding d2_def n_def
    by (subst get_slice_4 [where n = "length bodies"], simp, simp)
       (rule set_slice_4, simp_all add: d1_def n_def)
  have ld2: "length d2 = 4 * n" by (simp add: d2_def)
  have fst_enum: "fst ` set (enumerate_list bodies) = {..<n}"
  proof -
    have "map fst (zip [0..<n] bodies) = [0..<n]"
      by (rule map_fst_zip) (simp add: n_def)
    then have "set (map fst (enumerate_list bodies)) = set [0..<n]"
      by (simp only: enumerate_list_def n_def)
    then show ?thesis by (simp only: set_map set_upt atLeast0LessThan)
  qed
  have rng: "\<forall>(i, b) \<in> set (enumerate_list bodies). i * 4 + 3 < length d2 \<and> i * 4 + 2 < length pv"
    using len by (auto simp: enumerate_list_def ld2 n_def in_set_zip)
  then have rng2: "\<forall>(j, b) \<in> set (enumerate_list bodies). j * 4 + 2 < length pv" by auto
  have "outer_result rnd {..<n} pv bodies d2 k = deriv_at rnd pv bodies k" if "k < 4 * n" for k
  proof -
    obtain q r where k: "k = 4 * q + r" and r: "r < 4"
      by (metis mod_less_divisor mult_div_mod_eq zero_less_numeral)
    from that k have q: "q < n" by simp
    from k r have km: "k mod 4 = r" and kd: "k div 4 = q" by simp_all
    from r consider "r = 0" | "r = 1" | "r = 2" | "r = 3" by linarith
    then show ?thesis
      using q that by cases (simp_all add: km kd outer_result_def deriv_at_def d2_def d1_def zeros_def)
  qed
  then have "map (outer_result rnd {..<n} pv bodies d2) [0..<length d2] =
             map (deriv_at rnd pv bodies) [0..<4 * n]"
    by (simp add: ld2)
  then show ?thesis
    unfolding n_body_func_def Let_def
    using s1 s2 outer_loop_total [OF rng rng2] fst_enum
    by (simp add: n_def)
qed

subsection \<open>Coincident bodies and degenerate systems\<close>

lemma fadd_NaN_right: "fadd rnd v NaN = NaN"
  by (cases v) simp_all

text \<open>
  What follows holds for every rounding that maps zero to zero, as \<open>round64\<close> and \<open>Fin\<close>
  do.
\<close>

lemma fsub_self: "rnd 0 = Fin 0 \<Longrightarrow> fsub rnd v v = Fin 0 \<or> fsub rnd v v = NaN"
  by (cases v) (simp_all add: fsub_def)

lemma fmul_NaN_right: "fmul rnd v NaN = NaN"
  by (cases v) simp_all

lemma fmul_zero_not_fin:
  "rnd 0 = Fin 0 \<Longrightarrow>
   fmul rnd (fmul rnd c m) (Fin 0) = Fin 0 \<or> fmul rnd (fmul rnd c m) (Fin 0) = NaN"
  by (cases "fmul rnd c m") simp_all

lemma pair_term_coincident:
  assumes z: "rnd 0 = Fin 0"
  shows "pair_term rnd xb yb xb yb m = (NaN, NaN)"
proof -
  let ?c = "fmul rnd (Fin (- G)) m"
  have x: "fsub rnd xb xb = Fin 0 \<or> fsub rnd xb xb = NaN" by (rule fsub_self [where rnd = rnd, OF z])
  have y: "fsub rnd yb yb = Fin 0 \<or> fsub rnd yb yb = NaN" by (rule fsub_self [where rnd = rnd, OF z])
  from x y consider (zero) "fsub rnd xb xb = Fin 0" "fsub rnd yb yb = Fin 0"
    | (nan) "fsub rnd xb xb = NaN \<or> fsub rnd yb yb = NaN" by blast
  then show ?thesis
  proof cases
    case zero
    have "fmul rnd ?c (Fin 0) = Fin 0 \<or> fmul rnd ?c (Fin 0) = NaN"
      by (rule fmul_zero_not_fin [where rnd = rnd, OF z])
    then have "fmul rnd (fmul rnd ?c (Fin 0)) PInf = NaN" by auto
    with zero show ?thesis by (simp add: pair_term_def z)
  next
    case nan
    then have "fpow_half rnd (fadd rnd (fpow2 rnd (fsub rnd xb xb)) (fpow2 rnd (fsub rnd yb yb))) = NaN"
      by (auto simp: fadd_NaN_right)
    then show ?thesis by (simp add: pair_term_def fmul_NaN_right)
  qed
qed

lemma inner_acc_NaN: "inner_acc rnd pv i xb yb js (NaN, NaN) = (NaN, NaN)"
  by (induction js) auto

lemma inner_acc_coincident:
  assumes z: "rnd 0 = Fin 0"
    and "(j, b) \<in> set js" "i \<noteq> j" "pv ! (j * 4) = xb" "pv ! (j * 4 + 2) = yb"
  shows "inner_acc rnd pv i xb yb js acc = (NaN, NaN)"
  using assms(2)
proof (induction js arbitrary: acc)
  case Nil
  then show ?case by simp
next
  case (Cons p js)
  obtain j' b' where p: "p = (j', b')" by (cases p)
  show ?case
  proof (cases "p = (j, b)")
    case True
    then show ?thesis
      using assms(3-5) by (simp add: pair_term_coincident [where rnd = rnd, OF z] fadd_NaN_right inner_acc_NaN)
  next
    case False
    with Cons.prems have "(j, b) \<in> set js" by simp
    from Cons.IH [OF this] show ?thesis by (cases "i = j'") (simp_all add: p)
  qed
qed

lemma enumerate_list_member: "j < length bodies \<Longrightarrow> (j, bodies ! j) \<in> set (enumerate_list bodies)"
  by (auto simp: enumerate_list_def in_set_zip intro!: exI [of _ j])

lemma accel_coincident:
  assumes "rnd 0 = Fin 0"
    and "j < length bodies" "i \<noteq> j"
    and "pv ! (4 * i) = pv ! (4 * j)" "pv ! (4 * i + 2) = pv ! (4 * j + 2)"
  shows "accel rnd pv bodies i = (NaN, NaN)"
  unfolding accel_def
  by (rule inner_acc_coincident [where rnd = rnd, OF assms(1) enumerate_list_member [OF assms(2)] assms(3)])
     (use assms(4,5) in \<open>simp_all add: mult.commute\<close>)

lemma deriv_at_components:
  "deriv_at rnd pv bodies (4 * i) = pv ! (4 * i + 1)"
  "deriv_at rnd pv bodies (4 * i + 1) = fst (accel rnd pv bodies i)"
  "deriv_at rnd pv bodies (4 * i + 2) = pv ! (4 * i + 3)"
  "deriv_at rnd pv bodies (4 * i + 3) = snd (accel rnd pv bodies i)"
  "deriv_at rnd pv bodies (Suc (4 * i)) = fst (accel rnd pv bodies i)"
  using idx_mod [of 0 i] idx_mod [of 1 i] idx_mod [of 2 i] idx_mod [of 3 i]
        idx_div [of 0 i] idx_div [of 1 i] idx_div [of 2 i] idx_div [of 3 i]
  by (simp_all add: deriv_at_def mult.commute)

lemma coincident_any_rounding:
  assumes "rnd 0 = Fin 0"
    and "length pos_vel_array = 4 * length bodies"
    and "i < length bodies" "j < length bodies" "i \<noteq> j"
    and "pos_vel_array ! (4 * i) = pos_vel_array ! (4 * j)"
    and "pos_vel_array ! (4 * i + 2) = pos_vel_array ! (4 * j + 2)"
  shows "\<exists>d. n_body_func rnd t pos_vel_array bodies = Inr d \<and> length d = 4 * length bodies \<and>
           d ! (4 * i + 1) = NaN \<and> d ! (4 * i + 3) = NaN"
proof -
  have a: "accel rnd pos_vel_array bodies i = (NaN, NaN)"
    by (rule accel_coincident [where rnd = rnd, OF assms(1,4,5,6,7)])
  have k: "4 * i + 1 < 4 * length bodies" "4 * i + 3 < 4 * length bodies"
    using assms(3) by simp_all
  show ?thesis
    using k by (simp add: n_body_func_eval [OF assms(2)] deriv_at_components a del: upt_Suc)
qed

text \<open>
  Claim C5. When two distinct bodies \<open>i\<close> and \<open>j\<close> of a state vector of the right
  length are at exactly the same position, \<^verbatim>\<open>n_body_func\<close>, in the arithmetic of the
  program, neither raises nor repairs anything: it returns the derivative array, and both
  acceleration components of body \<open>i\<close> in it are not-a-number, whatever the other values
  of the state and the masses are. (By \<open>coincident_any_rounding\<close> the same holds in
  real arithmetic, and for every rounding that maps zero to zero.)
\<close>

theorem n_body_func_coincident:
  assumes "length pos_vel_array = 4 * length bodies"
    and "i < length bodies" "j < length bodies" "i \<noteq> j"
    and "pos_vel_array ! (4 * i) = pos_vel_array ! (4 * j)"
    and "pos_vel_array ! (4 * i + 2) = pos_vel_array ! (4 * j + 2)"
  shows "\<exists>d. n_body_func round64 t pos_vel_array bodies = Inr d \<and> length d = 4 * length bodies \<and>
           d ! (4 * i + 1) = NaN \<and> d ! (4 * i + 3) = NaN"
  by (rule coincident_any_rounding [where rnd = round64, OF round64_zero assms])

theorem n_body_func_coincident_witness:
  "\<exists>d. n_body_func round64 0 [Fin 1, Fin 0, Fin 2, Fin 0, Fin 1, Fin 0, Fin 2, Fin 0]
         [Body_init (Fin 1) (Fin 0) (Fin 2) (Fin 0) (Fin 5) ''a'',
          Body_init (Fin 1) (Fin 0) (Fin 2) (Fin 0) (Fin 7) ''b''] = Inr d \<and>
       length d = 8 \<and> d ! 1 = NaN \<and> d ! 3 = NaN"
  using n_body_func_coincident
    [where pos_vel_array = "[Fin 1, Fin 0, Fin 2, Fin 0, Fin 1, Fin 0, Fin 2, Fin 0]"
       and bodies = "[Body_init (Fin 1) (Fin 0) (Fin 2) (Fin 0) (Fin 5) ''a'',
                      Body_init (Fin 1) (Fin 0) (Fin 2) (Fin 0) (Fin 7) ''b'']"
       and i = 0 and j = 1 and t = 0]
  by simp

text \<open>
  Claim C9. With no body or a single body, and a state vector of the matching length (empty,
  or four values of any kind), \<^verbatim>\<open>n_body_func\<close> returns without an exception and every
  acceleration component of the result is zero: the inner loop adds no term to the
  accumulators, so no power of a distance is computed. No operation of the arithmetic is
  performed at all, so this holds whatever the rounding \<open>rnd\<close> is: for \<open>round64\<close>, the
  arithmetic of the program, and for \<open>Fin\<close>, real arithmetic.
\<close>

theorem n_body_func_degenerate:
  assumes "length bodies \<le> 1" "length pos_vel_array = 4 * length bodies"
  shows "\<exists>d. n_body_func rnd t pos_vel_array bodies = Inr d \<and> length d = 4 * length bodies \<and>
           (\<forall>i < length bodies. d ! (4 * i + 1) = Fin 0 \<and> d ! (4 * i + 3) = Fin 0)"
proof -
  have a: "accel rnd pos_vel_array bodies i = (Fin 0, Fin 0)" if "i < length bodies" for i
  proof -
    from that assms(1) obtain b where "bodies = [b]" "i = 0"
      by (cases bodies) auto
    then show ?thesis by (simp add: accel_def enumerate_list_def)
  qed
  have "4 * i + 1 < 4 * length bodies \<and> 4 * i + 3 < 4 * length bodies" if "i < length bodies" for i
    using that by simp
  then show ?thesis
    by (simp add: n_body_func_eval [OF assms(2)] deriv_at_components a del: upt_Suc)
qed

theorem n_body_func_degenerate_witness:
  "length [Body_init (Fin 1) (Fin 3) (Fin 2) (Fin 4) (Fin 5) ''a''] \<le> 1 \<and>
   (\<exists>d. n_body_func round64 0 [Fin 1, Fin 3, Fin 2, Fin 4]
          [Body_init (Fin 1) (Fin 3) (Fin 2) (Fin 4) (Fin 5) ''a''] = Inr d \<and>
        length d = 4 \<and> d ! 1 = Fin 0 \<and> d ! 3 = Fin 0)"
  using n_body_func_degenerate
    [where pos_vel_array = "[Fin 1, Fin 3, Fin 2, Fin 4]"
       and bodies = "[Body_init (Fin 1) (Fin 3) (Fin 2) (Fin 4) (Fin 5) ''a'']" and t = 0
       and rnd = round64]
  by simp

section \<open>Loading bodies\<close>

lemma load_body_complete:
  assumes "\<forall>k \<in> set required_keys. b k \<noteq> None"
  shows "load_body b =
           Inr \<lparr>x = the (b ''x''), y = the (b ''vx''), vx = the (b ''y''), vy = the (b ''vy''),
                mass = the (b ''mass''), name = the (b ''name'')\<rparr>"
  using assms by (simp add: load_body_def required_keys_def Body_init_def)

lemma set_initial_append: "set_initial (bs @ cs) = set_initial bs @ set_initial cs"
  by (induction bs) simp_all

text \<open>
  Claim C3. For configuration entries that hold all six required keys, \<^verbatim>\<open>load_body\<close>
  passes \<open>(x, y, vx, vy, mass, name)\<close> to a constructor that declares
  \<open>(x, vx, y, vy, mass, name)\<close>: each loaded body has the entry's \<open>y\<close> as its \<open>vx\<close>
  attribute and the entry's \<open>vx\<close> as its \<open>y\<close> attribute, and the state vector that
  \<^verbatim>\<open>set_initial\<close> builds from the loaded bodies is the entries' \<open>[x, y, vx, vy]\<close> per
  body.
\<close>

theorem load_body_positional:
  assumes "\<forall>b \<in> set config. \<forall>k \<in> set required_keys. b k \<noteq> None"
  shows "\<exists>bodies. load_bodies config = Inr bodies \<and> length bodies = length config \<and>
           (\<forall>i < length config.
              load_body (config ! i) = Inr (bodies ! i) \<and>
              x (bodies ! i) = the ((config ! i) ''x'') \<and>
              vx (bodies ! i) = the ((config ! i) ''y'') \<and>
              y (bodies ! i) = the ((config ! i) ''vx'') \<and>
              vy (bodies ! i) = the ((config ! i) ''vy'') \<and>
              mass (bodies ! i) = the ((config ! i) ''mass'') \<and>
              name (bodies ! i) = the ((config ! i) ''name'')) \<and>
           set_initial bodies = concat (map config_values config)"
  using assms
proof (induction config)
  case Nil
  show ?case by simp
next
  case (Cons b config)
  from Cons.prems have b: "\<forall>k \<in> set required_keys. b k \<noteq> None" by simp
  from Cons obtain bodies where bodies: "load_bodies config = Inr bodies"
    "length bodies = length config"
    "\<forall>i < length config.
              load_body (config ! i) = Inr (bodies ! i) \<and>
              x (bodies ! i) = the ((config ! i) ''x'') \<and>
              vx (bodies ! i) = the ((config ! i) ''y'') \<and>
              y (bodies ! i) = the ((config ! i) ''vx'') \<and>
              vy (bodies ! i) = the ((config ! i) ''vy'') \<and>
              mass (bodies ! i) = the ((config ! i) ''mass'') \<and>
              name (bodies ! i) = the ((config ! i) ''name'')"
    "set_initial bodies = concat (map config_values config)"
    by auto
  let ?body = "\<lparr>x = the (b ''x''), y = the (b ''vx''), vx = the (b ''y''), vy = the (b ''vy''),
                mass = the (b ''mass''), name = the (b ''name'')\<rparr>"
  have "load_bodies (b # config) = Inr (?body # bodies)"
    by (simp add: load_body_complete [OF b] bodies(1))
  moreover have "set_initial (?body # bodies) = concat (map config_values (b # config))"
    by (simp add: bodies(4) config_values_def)
  moreover have "\<forall>i < length (b # config).
              load_body ((b # config) ! i) = Inr ((?body # bodies) ! i) \<and>
              x ((?body # bodies) ! i) = the (((b # config) ! i) ''x'') \<and>
              vx ((?body # bodies) ! i) = the (((b # config) ! i) ''y'') \<and>
              y ((?body # bodies) ! i) = the (((b # config) ! i) ''vx'') \<and>
              vy ((?body # bodies) ! i) = the (((b # config) ! i) ''vy'') \<and>
              mass ((?body # bodies) ! i) = the (((b # config) ! i) ''mass'') \<and>
              name ((?body # bodies) ! i) = the (((b # config) ! i) ''name'')"
  proof (intro allI impI)
    fix i assume "i < length (b # config)"
    then show "load_body ((b # config) ! i) = Inr ((?body # bodies) ! i) \<and>
              x ((?body # bodies) ! i) = the (((b # config) ! i) ''x'') \<and>
              vx ((?body # bodies) ! i) = the (((b # config) ! i) ''y'') \<and>
              y ((?body # bodies) ! i) = the (((b # config) ! i) ''vx'') \<and>
              vy ((?body # bodies) ! i) = the (((b # config) ! i) ''vy'') \<and>
              mass ((?body # bodies) ! i) = the (((b # config) ! i) ''mass'') \<and>
              name ((?body # bodies) ! i) = the (((b # config) ! i) ''name'')"
      using bodies(3) by (cases i) (simp_all add: load_body_complete [OF b])
  qed
  ultimately show ?case using bodies(2) by (intro exI [of _ "?body # bodies"]) simp
qed

theorem load_body_positional_witness:
  "\<exists>bodies. load_bodies [[''x'' \<mapsto> 1, ''y'' \<mapsto> 2, ''vx'' \<mapsto> 3, ''vy'' \<mapsto> 4, ''mass'' \<mapsto> 5, ''name'' \<mapsto> (6::int)]] = Inr bodies \<and>
     vx (bodies ! 0) = 2 \<and> y (bodies ! 0) = 3 \<and> set_initial bodies = [1, 2, 3, 4]"
  using load_body_positional
    [where config = "[[''x'' \<mapsto> 1, ''y'' \<mapsto> 2, ''vx'' \<mapsto> 3, ''vy'' \<mapsto> 4, ''mass'' \<mapsto> 5, ''name'' \<mapsto> (6::int)]]"]
  by (simp add: required_keys_def config_values_def) blast

subsection \<open>Finite states with distinct positions\<close>

text \<open>
  In real arithmetic, the rounding \<open>Fin\<close>, the evaluator computes the sums of Newton's law.
\<close>

lemma pair_term_fin:
  assumes "\<not> (xb = xo \<and> yb = yo)"
  shows "pair_term Fin (Fin xb) (Fin yb) (Fin xo) (Fin yo) (Fin m) =
           (Fin (- G * m * (xb - xo) / sqrt ((xb - xo) ^ 2 + (yb - yo) ^ 2) ^ 3),
            Fin (- G * m * (yb - yo) / sqrt ((xb - xo) ^ 2 + (yb - yo) ^ 2) ^ 3))"
proof -
  have "(xb - xo) ^ 2 + (yb - yo) ^ 2 > 0"
    using assms by (auto simp: sum_power2_gt_zero_iff)
  then have r: "sqrt ((xb - xo) ^ 2 + (yb - yo) ^ 2) > 0" by (rule real_sqrt_gt_zero)
  then have nz: "sqrt ((xb - xo) ^ 2 + (yb - yo) ^ 2) \<noteq> 0" by linarith
  have p: "sqrt ((xb - xo) ^ 2 + (yb - yo) ^ 2) powi (- 3) = 1 / sqrt ((xb - xo) ^ 2 + (yb - yo) ^ 2) ^ 3"
    by (simp add: power_int_def field_simps)
  have sq: "0 \<le> (xb - xo) ^ 2 + (yb - yo) ^ 2" by simp
  show ?thesis
    unfolding pair_term_def Let_def fsub_def
    using nz sq by (simp add: p del: real_sqrt_eq_zero_cancel_iff)
qed

lemma inner_acc_fin:
  assumes "\<forall>(j, b) \<in> set js. j \<noteq> i \<longrightarrow> is_fin (mass b) \<and> 4 * j + 2 < length s \<and>
             \<not> (s ! (4 * i) = s ! (4 * j) \<and> s ! (4 * i + 2) = s ! (4 * j + 2))"
  shows "inner_acc Fin (map Fin s) i (Fin (s ! (4 * i))) (Fin (s ! (4 * i + 2))) js (Fin ax, Fin ay) =
           (Fin (ax + sum_list (map (\<lambda>(j, b). - G * real_of (mass b) * (s ! (4 * i) - s ! (4 * j))
                                              / distance s i j ^ 3)
                                 (filter (\<lambda>(j, b). j \<noteq> i) js))),
            Fin (ay + sum_list (map (\<lambda>(j, b). - G * real_of (mass b) * (s ! (4 * i + 2) - s ! (4 * j + 2))
                                              / distance s i j ^ 3)
                                 (filter (\<lambda>(j, b). j \<noteq> i) js))))"
  using assms
proof (induction js arbitrary: ax ay)
  case Nil
  show ?case by simp
next
  case (Cons p js)
  obtain j b where p: "p = (j, b)" by (cases p)
  from Cons.prems have rest: "\<forall>(j, b) \<in> set js. j \<noteq> i \<longrightarrow> is_fin (mass b) \<and> 4 * j + 2 < length s \<and>
             \<not> (s ! (4 * i) = s ! (4 * j) \<and> s ! (4 * i + 2) = s ! (4 * j + 2))"
    by simp
  show ?case
  proof (cases "i = j")
    case True
    then show ?thesis using Cons.IH [OF rest] by (simp add: p)
  next
    case False
    with Cons.prems p obtain m where m: "mass b = Fin m"
      and len: "4 * j + 2 < length s"
      and ne: "\<not> (s ! (4 * i) = s ! (4 * j) \<and> s ! (4 * i + 2) = s ! (4 * j + 2))"
      by (cases "mass b") auto
    have nth: "map Fin s ! (j * 4) = Fin (s ! (4 * j))" "map Fin s ! (j * 4 + 2) = Fin (s ! (4 * j + 2))"
      using len by (simp_all add: mult.commute)
    define tx where "tx = - G * m * (s ! (4 * i) - s ! (4 * j)) / distance s i j ^ 3"
    define ty where "ty = - G * m * (s ! (4 * i + 2) - s ! (4 * j + 2)) / distance s i j ^ 3"
    have pt: "pair_term Fin (Fin (s ! (4 * i))) (Fin (s ! (4 * i + 2))) (map Fin s ! (j * 4))
                (map Fin s ! (j * 4 + 2)) (mass b) = (Fin tx, Fin ty)"
      unfolding nth m tx_def ty_def distance_def by (rule pair_term_fin [OF ne])
    have step: "inner_acc Fin (map Fin s) i (Fin (s ! (4 * i))) (Fin (s ! (4 * i + 2))) (p # js)
                  (Fin ax, Fin ay) =
                inner_acc Fin (map Fin s) i (Fin (s ! (4 * i))) (Fin (s ! (4 * i + 2))) js
                  (Fin (ax + tx), Fin (ay + ty))"
      unfolding p using False
      by (simp only: inner_acc.simps pt fst_conv snd_conv fadd.simps) simp
    have flt: "filter (\<lambda>(j, b). j \<noteq> i) (p # js) = p # filter (\<lambda>(j, b). j \<noteq> i) js"
      using False by (simp add: p)
    show ?thesis
      unfolding step Cons.IH [OF rest] flt
      by (simp add: p m tx_def ty_def)
  qed
qed

lemma enumerate_list_map: "enumerate_list xs = map (\<lambda>j. (j, xs ! j)) [0..<length xs]"
  unfolding enumerate_list_def by (rule nth_equalityI) simp_all

lemma sum_list_others:
  "sum_list (map (\<lambda>(j, b). g j b) (filter (\<lambda>(j, b). j \<noteq> i) (enumerate_list xs))) =
     (\<Sum>j \<in> {..<length xs} - {i}. g j (xs ! j))"
proof -
  have "filter (\<lambda>(j, b). j \<noteq> i) (enumerate_list xs) =
        map (\<lambda>j. (j, xs ! j)) (filter (\<lambda>j. j \<noteq> i) [0..<length xs])"
    by (simp add: enumerate_list_map filter_map comp_def)
  then have "sum_list (map (\<lambda>(j, b). g j b) (filter (\<lambda>(j, b). j \<noteq> i) (enumerate_list xs))) =
             sum_list (map (\<lambda>j. g j (xs ! j)) (filter (\<lambda>j. j \<noteq> i) [0..<length xs]))"
    by (simp add: comp_def)
  also have "\<dots> = sum (\<lambda>j. g j (xs ! j)) (set (filter (\<lambda>j. j \<noteq> i) [0..<length xs]))"
    by (rule sum_list_distinct_conv_sum_set) simp
  also have "set (filter (\<lambda>j. j \<noteq> i) [0..<length xs]) = {..<length xs} - {i}"
    by auto
  finally show ?thesis .
qed

lemma accel_fin:
  assumes len: "length s = 4 * length bodies"
    and fin: "\<forall>b \<in> set bodies. is_fin (mass b)"
    and dist: "distinct_positions (length bodies) s"
    and i: "i < length bodies"
  shows "accel Fin (map Fin s) bodies i =
           (Fin (gravity_x (masses bodies) s i), Fin (gravity_y (masses bodies) s i))"
proof -
  have pre: "\<forall>(j, b) \<in> set (enumerate_list bodies). j \<noteq> i \<longrightarrow> is_fin (mass b) \<and>
               4 * j + 2 < length s \<and>
               \<not> (s ! (4 * i) = s ! (4 * j) \<and> s ! (4 * i + 2) = s ! (4 * j + 2))"
    using len fin dist i
    by (auto simp: enumerate_list_map distinct_positions_def)
  have nth: "map Fin s ! (i * 4) = Fin (s ! (4 * i))" "map Fin s ! (i * 4 + 2) = Fin (s ! (4 * i + 2))"
    using len i by (simp_all add: mult.commute)
  have gx: "(\<Sum>j \<in> {..<length bodies} - {i}.
               - G * real_of (mass (bodies ! j)) * (s ! (4 * i) - s ! (4 * j)) / distance s i j ^ 3) =
            gravity_x (masses bodies) s i"
    unfolding gravity_x_def by (rule sum.cong) (simp_all add: masses_def)
  have gy: "(\<Sum>j \<in> {..<length bodies} - {i}.
               - G * real_of (mass (bodies ! j)) * (s ! (4 * i + 2) - s ! (4 * j + 2)) / distance s i j ^ 3) =
            gravity_y (masses bodies) s i"
    unfolding gravity_y_def by (rule sum.cong) (simp_all add: masses_def)
  show ?thesis
    unfolding accel_def nth
    by (simp only: inner_acc_fin [OF pre, of 0 0] add_0
          sum_list_others [of "\<lambda>j b. - G * real_of (mass b) * (s ! (4 * i) - s ! (4 * j)) / distance s i j ^ 3"]
          sum_list_others [of "\<lambda>j b. - G * real_of (mass b) * (s ! (4 * i + 2) - s ! (4 * j + 2)) / distance s i j ^ 3"]
          gx gy)
qed


lemma n_body_func_fin:
  assumes len: "length s = 4 * length bodies"
    and fin: "\<forall>b \<in> set bodies. is_fin (mass b)"
    and dist: "distinct_positions (length bodies) s"
    and i: "i < length bodies"
  shows "map (deriv_at Fin (map Fin s) bodies) [0..<4 * length bodies] ! (4 * i) = Fin (s ! (4 * i + 1))"
    and "map (deriv_at Fin (map Fin s) bodies) [0..<4 * length bodies] ! (4 * i + 2) = Fin (s ! (4 * i + 3))"
    and "map (deriv_at Fin (map Fin s) bodies) [0..<4 * length bodies] ! (4 * i + 1) =
           Fin (gravity_x (masses bodies) s i)"
    and "map (deriv_at Fin (map Fin s) bodies) [0..<4 * length bodies] ! (4 * i + 3) =
           Fin (gravity_y (masses bodies) s i)"
proof -
  have k: "4 * i < 4 * length bodies" "4 * i + 1 < 4 * length bodies"
    "4 * i + 2 < 4 * length bodies" "4 * i + 3 < 4 * length bodies"
    using i by simp_all
  have n: "map f [0..<4 * length bodies] ! k = f k" if "k < 4 * length bodies" for k and f :: "nat \<Rightarrow> fval"
    using that by simp
  have v: "map Fin s ! (4 * i + 1) = Fin (s ! (4 * i + 1))" "map Fin s ! (4 * i + 3) = Fin (s ! (4 * i + 3))"
    using len i by simp_all
  show "map (deriv_at Fin (map Fin s) bodies) [0..<4 * length bodies] ! (4 * i) = Fin (s ! (4 * i + 1))"
    unfolding n [OF k(1)] deriv_at_components v ..
  show "map (deriv_at Fin (map Fin s) bodies) [0..<4 * length bodies] ! (4 * i + 2) = Fin (s ! (4 * i + 3))"
    unfolding n [OF k(3)] deriv_at_components v ..
  show "map (deriv_at Fin (map Fin s) bodies) [0..<4 * length bodies] ! (4 * i + 1) =
           Fin (gravity_x (masses bodies) s i)"
    unfolding n [OF k(2)] deriv_at_components accel_fin [OF len fin dist i] by simp
  show "map (deriv_at Fin (map Fin s) bodies) [0..<4 * length bodies] ! (4 * i + 3) =
           Fin (gravity_y (masses bodies) s i)"
    unfolding n [OF k(4)] deriv_at_components accel_fin [OF len fin dist i] by simp
qed

lemma two_bodies_distinct: "distinct_positions 2 [0, 1, 0, 2, 3, 0, 4, 0 :: real]"
  by (simp add: distinct_positions_def less_Suc_eq numeral_2_eq_2)

lemma others_of_two: "{..<Suc (Suc 0)} - {0} = {Suc 0}" "{..<Suc (Suc 0)} - {Suc 0} = {0}"
  by auto

lemma antisym_double_sum:
  fixes f :: "nat \<Rightarrow> nat \<Rightarrow> real"
  assumes "\<And>i j. f i j = - f j i"
  shows "(\<Sum>i<n. \<Sum>j \<in> {..<n} - {i}. f i j) = 0"
proof -
  have diag: "f i i = 0" for i using assms [of i i] by simp
  have "(\<Sum>j \<in> {..<n} - {i}. f i j) = (\<Sum>j<n. f i j)" for i
    by (simp add: sum_diff1 diag)
  then have "(\<Sum>i<n. \<Sum>j \<in> {..<n} - {i}. f i j) = (\<Sum>i<n. \<Sum>j<n. f i j)" by simp
  also have "\<dots> = (\<Sum>j<n. \<Sum>i<n. f i j)" by (rule sum.swap)
  also have "\<dots> = (\<Sum>j<n. \<Sum>i<n. - f j i)"
    by (rule sum.cong [OF refl], rule sum.cong [OF refl], rule assms)
  also have "\<dots> = - (\<Sum>j<n. \<Sum>i<n. f j i)" by (simp add: sum_negf)
  finally have "(\<Sum>i<n. \<Sum>j \<in> {..<n} - {i}. f i j) = - (\<Sum>j<n. \<Sum>i<n. f j i)" .
  moreover have "(\<Sum>i<n. \<Sum>j \<in> {..<n} - {i}. f i j) = (\<Sum>i<n. \<Sum>j<n. f i j)"
    by fact
  ultimately show ?thesis by simp
qed

lemma pull_antisym: "p * (- g * q * (a - b) / d) = - (q * (- g * p * (b - a) / d))" for p :: real
  by (cases "d = 0") (simp_all add: field_simps)

lemma distance_sym: "distance s i j = distance s j i"
  by (simp add: distance_def power2_commute)

lemma gravity_x_momentum: "(\<Sum>i<length ms. ms ! i * gravity_x ms s i) = 0"
proof -
  define f where "f i j = ms ! i * (- G * ms ! j * (s ! (4 * i) - s ! (4 * j)) / distance s i j ^ 3)" for i j
  have "f i j = - f j i" for i j
    unfolding f_def distance_sym [of s i j] by (rule pull_antisym)
  from antisym_double_sum [of f, OF this]
  show ?thesis by (simp add: f_def gravity_x_def sum_distrib_left)
qed

lemma gravity_y_momentum: "(\<Sum>i<length ms. ms ! i * gravity_y ms s i) = 0"
proof -
  define f where "f i j = ms ! i * (- G * ms ! j * (s ! (4 * i + 2) - s ! (4 * j + 2)) / distance s i j ^ 3)" for i j
  have "f i j = - f j i" for i j
    unfolding f_def distance_sym [of s i j] by (rule pull_antisym)
  from antisym_double_sum [of f, OF this]
  show ?thesis by (simp add: f_def gravity_y_def sum_distrib_left)
qed

lemma n_body_func_underflow:
  "n_body_func round64 t [Fin 0, Fin 0, Fin 0, Fin 0, Fin tiny, Fin 0, Fin 0, Fin 0]
     [\<lparr>x = Fin 0, y = Fin 0, vx = Fin 0, vy = Fin 0, mass = Fin 5, name = ''a''\<rparr>,
      \<lparr>x = Fin tiny, y = Fin 0, vx = Fin 0, vy = Fin 0, mass = Fin 7, name = ''b''\<rparr>] =
   Inr [Fin 0, PInf, Fin 0, NaN, Fin 0, NInf, Fin 0, NaN]"
  using tiny_pos
  by (simp add: n_body_func_def zeros_def set_slice_def get_slice_def slice_indices_def in_slice_def
      enumerate_list_def getitem_def setitem_def Let_def upt_conv_Cons fsub_def G_def
      round64_tiny round64_neg_tiny round64_numeral_tiny round64_neg_numeral_tiny
      round64_tiny_squared inf_of_sign_def)

lemma tiny_distinct: "distinct_positions 2 [0, 0, 0, 0, tiny, 0, 0, 0]"
  using tiny_pos by (simp add: distinct_positions_def less_Suc_eq numeral_2_eq_2)

text \<open>
  Claim C1, as stated, fails in the arithmetic of the program. Two bodies of masses 5 and
  7 at \<open>(0, 0)\<close> and \<open>(tiny, 0)\<close>, at rest: the positions are distinct float64 numbers, but
  the square of their distance underflows to zero, so the distance is computed as zero and
  its power \<open>- 3\<close> as infinity. The accelerations returned are infinite in \<open>x\<close> and, zero
  times infinity, not-a-number in \<open>y\<close>, where the sum of the claim is the number zero.
\<close>

theorem n_body_func_newton_counterexample:
  "round64 tiny = Fin tiny \<and>
   distinct_positions 2 [0, 0, 0, 0, tiny, 0, 0, 0] \<and>
   n_body_func round64 0 (map Fin [0, 0, 0, 0, tiny, 0, 0, 0])
     [Body_init (Fin 0) (Fin 0) (Fin 0) (Fin 0) (Fin 5) ''a'',
      Body_init (Fin tiny) (Fin 0) (Fin 0) (Fin 0) (Fin 7) ''b''] =
     Inr [Fin 0, PInf, Fin 0, NaN, Fin 0, NInf, Fin 0, NaN] \<and>
   gravity_y [5, 7] [0, 0, 0, 0, tiny, 0, 0, 0] 0 = 0 \<and>
   gravity_y [5, 7] [0, 0, 0, 0, tiny, 0, 0, 0] 1 = 0"
proof (intro conjI)
  show "round64 tiny = Fin tiny"
    by (rule round64_tiny)
  show "distinct_positions 2 [0, 0, 0, 0, tiny, 0, 0, 0]"
    by (rule tiny_distinct)
  show "n_body_func round64 0 (map Fin [0, 0, 0, 0, tiny, 0, 0, 0])
     [Body_init (Fin 0) (Fin 0) (Fin 0) (Fin 0) (Fin 5) ''a'',
      Body_init (Fin tiny) (Fin 0) (Fin 0) (Fin 0) (Fin 7) ''b''] =
     Inr [Fin 0, PInf, Fin 0, NaN, Fin 0, NInf, Fin 0, NaN]"
    using n_body_func_underflow [of 0] by (simp add: Body_init_def)
  show "gravity_y [5, 7] [0, 0, 0, 0, tiny, 0, 0, 0] 0 = 0"
    by (simp add: gravity_y_def numeral_2_eq_2 others_of_two)
  show "gravity_y [5, 7] [0, 0, 0, 0, tiny, 0, 0, 0] 1 = 0"
    by (simp add: gravity_y_def numeral_2_eq_2 others_of_two)
qed

text \<open>
  Claim C1, amended. For every time \<open>t\<close>, every list of \<open>n\<close> bodies with finite masses and
  every state vector \<open>s\<close> of \<open>4 * n\<close> finite numbers in which no two bodies are at the same
  position, \<^verbatim>\<open>n_body_func\<close> returns an array of length \<open>4 * n\<close> in the same layout. In
  the arithmetic of the program components \<open>4 * i\<close> and \<open>4 * i + 2\<close> are the input
  velocities \<open>4 * i + 1\<close> and \<open>4 * i + 3\<close>, which are copied. In real arithmetic, that is
  with every operation exact, components \<open>4 * i + 1\<close> and \<open>4 * i + 3\<close> are moreover the
  sums over every other body \<open>j\<close> of \<open>- G * mass j * (pos i - pos j) / |pos i - pos j| ^ 3\<close>,
  with \<open>G = 1\<close>.
\<close>

theorem n_body_func_newton:
  assumes "length s = 4 * length bodies"
    and "\<forall>b \<in> set bodies. is_fin (mass b)"
    and "distinct_positions (length bodies) s"
  shows "(\<exists>d. n_body_func round64 t (map Fin s) bodies = Inr d \<and> length d = 4 * length bodies \<and>
           (\<forall>i < length bodies.
              d ! (4 * i) = Fin (s ! (4 * i + 1)) \<and>
              d ! (4 * i + 2) = Fin (s ! (4 * i + 3)))) \<and>
         (\<exists>d. n_body_func Fin t (map Fin s) bodies = Inr d \<and> length d = 4 * length bodies \<and>
           (\<forall>i < length bodies.
              d ! (4 * i) = Fin (s ! (4 * i + 1)) \<and>
              d ! (4 * i + 2) = Fin (s ! (4 * i + 3)) \<and>
              d ! (4 * i + 1) = Fin (gravity_x (masses bodies) s i) \<and>
              d ! (4 * i + 3) = Fin (gravity_y (masses bodies) s i))) \<and>
         G = 1"
proof -
  let ?c = "map (deriv_at round64 (map Fin s) bodies) [0..<4 * length bodies]"
  let ?d = "map (deriv_at Fin (map Fin s) bodies) [0..<4 * length bodies]"
  have l: "length (map Fin s) = 4 * length bodies" using assms(1) by simp
  have lenc: "length ?c = 4 * length bodies" by simp
  have vel: "\<forall>i < length bodies.
      ?c ! (4 * i) = Fin (s ! (4 * i + 1)) \<and> ?c ! (4 * i + 2) = Fin (s ! (4 * i + 3))"
  proof (intro allI impI)
    fix i assume i: "i < length bodies"
    then have k: "4 * i < 4 * length bodies" "4 * i + 2 < 4 * length bodies"
      by simp_all
    have n: "map f [0..<4 * length bodies] ! k = f k" if "k < 4 * length bodies"
      for k and f :: "nat \<Rightarrow> fval"
      using that by simp
    have v: "map Fin s ! (4 * i + 1) = Fin (s ! (4 * i + 1))"
      "map Fin s ! (4 * i + 3) = Fin (s ! (4 * i + 3))"
      using assms(1) i by simp_all
    have "?c ! (4 * i) = Fin (s ! (4 * i + 1))"
      unfolding n [OF k(1)] deriv_at_components v ..
    moreover have "?c ! (4 * i + 2) = Fin (s ! (4 * i + 3))"
      unfolding n [OF k(2)] deriv_at_components v ..
    ultimately show "?c ! (4 * i) = Fin (s ! (4 * i + 1)) \<and> ?c ! (4 * i + 2) = Fin (s ! (4 * i + 3))"
      by (simp only: simp_thms)
  qed
  have len: "length ?d = 4 * length bodies" by simp
  have comp: "\<forall>i < length bodies.
      ?d ! (4 * i) = Fin (s ! (4 * i + 1)) \<and>
      ?d ! (4 * i + 2) = Fin (s ! (4 * i + 3)) \<and>
      ?d ! (4 * i + 1) = Fin (gravity_x (masses bodies) s i) \<and>
      ?d ! (4 * i + 3) = Fin (gravity_y (masses bodies) s i)"
  proof (intro allI impI)
    fix i assume i: "i < length bodies"
    note c = n_body_func_fin [OF assms i]
    show "?d ! (4 * i) = Fin (s ! (4 * i + 1)) \<and>
      ?d ! (4 * i + 2) = Fin (s ! (4 * i + 3)) \<and>
      ?d ! (4 * i + 1) = Fin (gravity_x (masses bodies) s i) \<and>
      ?d ! (4 * i + 3) = Fin (gravity_y (masses bodies) s i)"
      using c(1) c(2) c(3) c(4) by (simp only: simp_thms)
  qed
  show ?thesis
  proof (intro conjI)
    show "\<exists>d. n_body_func round64 t (map Fin s) bodies = Inr d \<and> length d = 4 * length bodies \<and>
           (\<forall>i < length bodies.
              d ! (4 * i) = Fin (s ! (4 * i + 1)) \<and>
              d ! (4 * i + 2) = Fin (s ! (4 * i + 3)))"
    proof (rule exI [of _ ?c], intro conjI)
      show "n_body_func round64 t (map Fin s) bodies = Inr ?c" by (rule n_body_func_eval [OF l])
      show "length ?c = 4 * length bodies" by (rule lenc)
      show "\<forall>i < length bodies.
        ?c ! (4 * i) = Fin (s ! (4 * i + 1)) \<and> ?c ! (4 * i + 2) = Fin (s ! (4 * i + 3))"
        by (rule vel)
    qed
    show "\<exists>d. n_body_func Fin t (map Fin s) bodies = Inr d \<and> length d = 4 * length bodies \<and>
           (\<forall>i < length bodies.
              d ! (4 * i) = Fin (s ! (4 * i + 1)) \<and>
              d ! (4 * i + 2) = Fin (s ! (4 * i + 3)) \<and>
              d ! (4 * i + 1) = Fin (gravity_x (masses bodies) s i) \<and>
              d ! (4 * i + 3) = Fin (gravity_y (masses bodies) s i))"
    proof (rule exI [of _ ?d], intro conjI)
      show "n_body_func Fin t (map Fin s) bodies = Inr ?d" by (rule n_body_func_eval [OF l])
      show "length ?d = 4 * length bodies" by (rule len)
      show "\<forall>i < length bodies.
        ?d ! (4 * i) = Fin (s ! (4 * i + 1)) \<and>
        ?d ! (4 * i + 2) = Fin (s ! (4 * i + 3)) \<and>
        ?d ! (4 * i + 1) = Fin (gravity_x (masses bodies) s i) \<and>
        ?d ! (4 * i + 3) = Fin (gravity_y (masses bodies) s i)" by (rule comp)
    qed
    show "G = 1" by (rule G_def)
  qed
qed

theorem n_body_func_newton_witness:
  "distinct_positions 2 [0, 1, 0, 2, 3, 0, 4, 0 :: real] \<and>
   (\<exists>d. n_body_func round64 0 (map Fin [0, 1, 0, 2, 3, 0, 4, 0])
          [Body_init (Fin 0) (Fin 1) (Fin 0) (Fin 2) (Fin 5) ''a'',
           Body_init (Fin 3) (Fin 0) (Fin 4) (Fin 0) (Fin 7) ''b''] = Inr d \<and>
        length d = 8 \<and>
        d ! 0 = Fin 1 \<and> d ! 2 = Fin 2 \<and> d ! 4 = Fin 0 \<and> d ! 6 = Fin 0) \<and>
   (\<exists>d. n_body_func Fin 0 (map Fin [0, 1, 0, 2, 3, 0, 4, 0])
          [Body_init (Fin 0) (Fin 1) (Fin 0) (Fin 2) (Fin 5) ''a'',
           Body_init (Fin 3) (Fin 0) (Fin 4) (Fin 0) (Fin 7) ''b''] = Inr d \<and>
        length d = 8 \<and>
        d ! 0 = Fin 1 \<and> d ! 2 = Fin 2 \<and> d ! 1 = Fin (21 / 125) \<and> d ! 3 = Fin (28 / 125) \<and>
        d ! 4 = Fin 0 \<and> d ! 6 = Fin 0 \<and> d ! 5 = Fin (- 15 / 125) \<and> d ! 7 = Fin (- 20 / 125))"
proof -
  have h: "distinct_positions (length [Body_init (Fin 0) (Fin 1) (Fin 0) (Fin 2) (Fin 5) ''a'',
           Body_init (Fin 3) (Fin 0) (Fin 4) (Fin 0) (Fin 7) ''b'']) [0, 1, 0, 2, 3, 0, 4, 0 :: real]"
    by (simp add: distinct_positions_def less_Suc_eq numeral_2_eq_2)
  have m: "\<forall>b \<in> set [Body_init (Fin 0) (Fin 1) (Fin 0) (Fin 2) (Fin 5) ''a'',
           Body_init (Fin 3) (Fin 0) (Fin 4) (Fin 0) (Fin 7) ''b'']. is_fin (mass b)"
    by (simp add: Body_init_def)
  have s5: "sqrt 25 = 5" by (rule real_sqrt_unique) simp_all
  have l: "length [0, 1, 0, 2, 3, 0, 4, 0 :: real] =
      4 * length [Body_init (Fin 0) (Fin 1) (Fin 0) (Fin 2) (Fin 5) ''a'',
                  Body_init (Fin 3) (Fin 0) (Fin 4) (Fin 0) (Fin 7) ''b'']"
    by simp
  note inst = n_body_func_newton [OF l m h, of 0]
  from inst obtain c where
    c: "n_body_func round64 0 (map Fin [0, 1, 0, 2, 3, 0, 4, 0])
          [Body_init (Fin 0) (Fin 1) (Fin 0) (Fin 2) (Fin 5) ''a'',
           Body_init (Fin 3) (Fin 0) (Fin 4) (Fin 0) (Fin 7) ''b''] = Inr c"
      "length c = 8"
    and cv: "\<And>i. i < 2 \<Longrightarrow>
              c ! (4 * i) = Fin ([0, 1, 0, 2, 3, 0, 4, 0] ! (4 * i + 1)) \<and>
              c ! (4 * i + 2) = Fin ([0, 1, 0, 2, 3, 0, 4, 0] ! (4 * i + 3))"
    by (auto simp: masses_def Body_init_def)
  from inst obtain d where
    d: "n_body_func Fin 0 (map Fin [0, 1, 0, 2, 3, 0, 4, 0])
          [Body_init (Fin 0) (Fin 1) (Fin 0) (Fin 2) (Fin 5) ''a'',
           Body_init (Fin 3) (Fin 0) (Fin 4) (Fin 0) (Fin 7) ''b''] = Inr d"
      "length d = 8"
    and dv: "\<And>i. i < 2 \<Longrightarrow>
              d ! (4 * i) = Fin ([0, 1, 0, 2, 3, 0, 4, 0] ! (4 * i + 1)) \<and>
              d ! (4 * i + 2) = Fin ([0, 1, 0, 2, 3, 0, 4, 0] ! (4 * i + 3)) \<and>
              d ! (4 * i + 1) = Fin (gravity_x [5, 7] [0, 1, 0, 2, 3, 0, 4, 0] i) \<and>
              d ! (4 * i + 3) = Fin (gravity_y [5, 7] [0, 1, 0, 2, 3, 0, 4, 0] i)"
    by (auto simp: masses_def Body_init_def)
  have g: "gravity_x [5, 7] [0, 1, 0, 2, 3, 0, 4, 0] 0 = 21 / 125"
    "gravity_y [5, 7] [0, 1, 0, 2, 3, 0, 4, 0] 0 = 28 / 125"
    "gravity_x [5, 7] [0, 1, 0, 2, 3, 0, 4, 0] (Suc 0) = - 15 / 125"
    "gravity_y [5, 7] [0, 1, 0, 2, 3, 0, 4, 0] (Suc 0) = - 20 / 125"
    by (simp_all add: gravity_x_def gravity_y_def distance_def G_def numeral_2_eq_2 others_of_two s5)
  from cv [of 0] cv [of 1] have cc:
    "c ! 0 = Fin 1 \<and> c ! 2 = Fin 2 \<and> c ! 4 = Fin 0 \<and> c ! 6 = Fin 0"
    by (simp add: numeral_2_eq_2)
  from dv [of 0] dv [of 1] have dd:
    "d ! 0 = Fin 1 \<and> d ! 2 = Fin 2 \<and> d ! 1 = Fin (21 / 125) \<and> d ! 3 = Fin (28 / 125) \<and>
     d ! 4 = Fin 0 \<and> d ! 6 = Fin 0 \<and> d ! 5 = Fin (- 15 / 125) \<and> d ! 7 = Fin (- 20 / 125)"
    by (simp add: g numeral_2_eq_2)
  show ?thesis
  proof (intro conjI)
    show "distinct_positions 2 [0, 1, 0, 2, 3, 0, 4, 0 :: real]"
      by (rule two_bodies_distinct)
    show "\<exists>d. n_body_func round64 0 (map Fin [0, 1, 0, 2, 3, 0, 4, 0])
          [Body_init (Fin 0) (Fin 1) (Fin 0) (Fin 2) (Fin 5) ''a'',
           Body_init (Fin 3) (Fin 0) (Fin 4) (Fin 0) (Fin 7) ''b''] = Inr d \<and>
        length d = 8 \<and>
        d ! 0 = Fin 1 \<and> d ! 2 = Fin 2 \<and> d ! 4 = Fin 0 \<and> d ! 6 = Fin 0"
      using c cc by (intro exI [of _ c]) (simp only: simp_thms)
    show "\<exists>d. n_body_func Fin 0 (map Fin [0, 1, 0, 2, 3, 0, 4, 0])
          [Body_init (Fin 0) (Fin 1) (Fin 0) (Fin 2) (Fin 5) ''a'',
           Body_init (Fin 3) (Fin 0) (Fin 4) (Fin 0) (Fin 7) ''b''] = Inr d \<and>
        length d = 8 \<and>
        d ! 0 = Fin 1 \<and> d ! 2 = Fin 2 \<and> d ! 1 = Fin (21 / 125) \<and> d ! 3 = Fin (28 / 125) \<and>
        d ! 4 = Fin 0 \<and> d ! 6 = Fin 0 \<and> d ! 5 = Fin (- 15 / 125) \<and> d ! 7 = Fin (- 20 / 125)"
      using d dd by (intro exI [of _ d]) (simp only: simp_thms)
  qed
qed

text \<open>
  Claim C8. In real arithmetic, which is what the claim speaks of, for every list of
  bodies with finite masses (they need not be positive) and every state vector of finite
  numbers in which no two bodies are at the same position, the accelerations that
  \<^verbatim>\<open>n_body_func\<close> returns are finite and their mass-weighted sum over all bodies is
  exactly zero in the \<open>x\<close> direction and in the \<open>y\<close> direction.
\<close>

theorem n_body_func_momentum:
  assumes "length s = 4 * length bodies"
    and "\<forall>b \<in> set bodies. is_fin (mass b)"
    and "distinct_positions (length bodies) s"
  shows "\<exists>d. n_body_func Fin t (map Fin s) bodies = Inr d \<and> length d = 4 * length bodies \<and>
           (\<forall>i < length bodies. is_fin (d ! (4 * i + 1)) \<and> is_fin (d ! (4 * i + 3))) \<and>
           (\<Sum>i<length bodies. masses bodies ! i * real_of (d ! (4 * i + 1))) = 0 \<and>
           (\<Sum>i<length bodies. masses bodies ! i * real_of (d ! (4 * i + 3))) = 0"
proof -
  let ?d = "map (deriv_at Fin (map Fin s) bodies) [0..<4 * length bodies]"
  have "length (map Fin s) = 4 * length bodies" using assms(1) by simp
  from n_body_func_eval [OF this]
  have ev: "n_body_func Fin t (map Fin s) bodies = Inr ?d" .
  have ax: "?d ! (4 * i + 1) = Fin (gravity_x (masses bodies) s i)"
    and ay: "?d ! (4 * i + 3) = Fin (gravity_y (masses bodies) s i)" if "i < length bodies" for i
    using n_body_func_fin [OF assms that] by simp_all
  have "(\<Sum>i<length bodies. masses bodies ! i * real_of (?d ! (4 * i + 1))) =
        (\<Sum>i<length bodies. masses bodies ! i * gravity_x (masses bodies) s i)"
    by (rule sum.cong) (simp_all only: ax lessThan_iff real_of.simps)
  also have "\<dots> = 0" using gravity_x_momentum [of "masses bodies" s] by (simp add: masses_def)
  finally have mx: "(\<Sum>i<length bodies. masses bodies ! i * real_of (?d ! (4 * i + 1))) = 0" .
  have "(\<Sum>i<length bodies. masses bodies ! i * real_of (?d ! (4 * i + 3))) =
        (\<Sum>i<length bodies. masses bodies ! i * gravity_y (masses bodies) s i)"
    by (rule sum.cong) (simp_all only: ay lessThan_iff real_of.simps)
  also have "\<dots> = 0" using gravity_y_momentum [of "masses bodies" s] by (simp add: masses_def)
  finally have my: "(\<Sum>i<length bodies. masses bodies ! i * real_of (?d ! (4 * i + 3))) = 0" .
  have fin: "\<forall>i < length bodies. is_fin (?d ! (4 * i + 1)) \<and> is_fin (?d ! (4 * i + 3))"
    using ax ay by auto
  have len: "length ?d = 4 * length bodies" by simp
  show ?thesis
  proof (rule exI [of _ ?d], intro conjI)
    show "n_body_func Fin t (map Fin s) bodies = Inr ?d" by (rule ev)
    show "length ?d = 4 * length bodies" by (rule len)
    show "\<forall>i < length bodies. is_fin (?d ! (4 * i + 1)) \<and> is_fin (?d ! (4 * i + 3))" by (rule fin)
    show "(\<Sum>i<length bodies. masses bodies ! i * real_of (?d ! (4 * i + 1))) = 0" by (rule mx)
    show "(\<Sum>i<length bodies. masses bodies ! i * real_of (?d ! (4 * i + 3))) = 0" by (rule my)
  qed
qed

theorem n_body_func_momentum_witness:
  "\<exists>d. n_body_func Fin 0 (map Fin [0, 1, 0, 2, 3, 0, 4, 0])
         [Body_init (Fin 0) (Fin 1) (Fin 0) (Fin 2) (Fin 5) ''a'',
          Body_init (Fin 3) (Fin 0) (Fin 4) (Fin 0) (Fin 7) ''b''] = Inr d \<and>
       5 * real_of (d ! 1) + 7 * real_of (d ! 5) = 0 \<and>
       5 * real_of (d ! 3) + 7 * real_of (d ! 7) = 0"
proof -
  have h: "distinct_positions (length [Body_init (Fin 0) (Fin 1) (Fin 0) (Fin 2) (Fin 5) ''a'',
           Body_init (Fin 3) (Fin 0) (Fin 4) (Fin 0) (Fin 7) ''b'']) [0, 1, 0, 2, 3, 0, 4, 0 :: real]"
    using two_bodies_distinct by (simp add: numeral_2_eq_2)
  have m: "\<forall>b \<in> set [Body_init (Fin 0) (Fin 1) (Fin 0) (Fin 2) (Fin 5) ''a'',
           Body_init (Fin 3) (Fin 0) (Fin 4) (Fin 0) (Fin 7) ''b'']. is_fin (mass b)"
    by (simp add: Body_init_def)
  have l: "length [0, 1, 0, 2, 3, 0, 4, 0 :: real] =
      4 * length [Body_init (Fin 0) (Fin 1) (Fin 0) (Fin 2) (Fin 5) ''a'',
                  Body_init (Fin 3) (Fin 0) (Fin 4) (Fin 0) (Fin 7) ''b'']"
    by simp
  from n_body_func_momentum [OF l m h, of 0] show ?thesis
    by (auto simp: masses_def Body_init_def lessThan_Suc numeral_2_eq_2)
qed

section \<open>Properties of the integrator\<close>

lemma set_row_shape:
  assumes "set_row a i row = Inr a'"
  shows "length a' = length a" and "\<forall>k < length a. length (a' ! k) = length (a ! k)"
    and "\<forall>k. k \<noteq> i \<longrightarrow> a' ! k = a ! k"
  using assms by (auto simp: set_row_def nth_list_update split: if_splits)

lemma integrate_loop_shape:
  assumes "integrate_loop solver s is t a = Inr a'"
  shows "length a' = length a \<and> (\<forall>k < length a. length (a' ! k) = length (a ! k)) \<and>
         (\<forall>k. k \<notin> set is \<longrightarrow> a' ! k = a ! k)"
  using assms
proof (induction "is" arbitrary: s a)
  case Nil
  then show ?case by simp
next
  case (Cons i rest)
  from Cons.prems obtain ti row s' a1 where
    step: "integrate solver s ti = (Inr row, s')" "set_row a i row = Inr a1"
      "integrate_loop solver s' rest t a1 = Inr a'"
    by (auto split: sum.splits prod.splits)
  from Cons.IH [OF step(3)] set_row_shape [OF step(2)]
  show ?case by auto
qed

lemma linspace_length:
  assumes "0 \<le> num"
  shows "\<exists>ts. linspace start stop num = Inr ts \<and> length ts = nat num"
proof -
  have "\<not> num < 0" using assms by simp
  then show ?thesis unfolding linspace_def Let_def by (simp only: if_False) simp
qed

lemma linspace_nth:
  assumes "2 \<le> num" "linspace start stop num = Inr ts" "i < nat num"
  shows "ts ! i = start + real i * ((stop - start) / (real_of_int num - 1))"
proof -
  define n where "n = nat num"
  define step where "step = (stop - start) / real (n - 1)"
  have n2: "2 \<le> n" using assms(1) by (simp add: n_def)
  have num: "real_of_int num - 1 = real (n - 1)"
  proof -
    have "real_of_int num = real n" using assms(1) by (simp add: n_def)
    moreover have "real (n - 1) = real n - 1" using n2 by (simp add: of_nat_diff)
    ultimately show ?thesis by simp
  qed
  have neg: "\<not> num < 0" using assms(1) by simp
  have pos: "0 < n - 1" "1 < n" using n2 by simp_all
  have "linspace start stop num = Inr ((map (\<lambda>i. real i * step + start) [0..<n])[n - 1 := stop])"
    unfolding linspace_def Let_def n_def [symmetric] step_def
    using neg pos by (simp only: if_False if_True)
  with assms(2) have ts: "ts = (map (\<lambda>i. real i * step + start) [0..<n])[n - 1 := stop]"
    by simp
  have i: "i < n" using assms(3) by (simp add: n_def)
  have last: "real (n - 1) * step + start = stop"
  proof -
    have "real (n - 1) \<noteq> 0" using pos(1) by simp
    then have "real (n - 1) * step = stop - start" unfolding step_def by simp
    then show ?thesis by simp
  qed
  have "ts ! i = real i * step + start"
  proof (cases "i = n - 1")
    case True
    then show ?thesis using i last by (simp add: ts)
  next
    case False
    then show ?thesis using i by (simp add: ts)
  qed
  then show ?thesis unfolding num step_def by (simp only: add.commute)
qed

lemma integrate_loop_rows:
  assumes "integrate_all solver s (drop k t) = Inr rows"
    and "\<forall>row \<in> set rows. length row = c"
    and "length a = length t" "\<forall>r \<in> set a. length r = c" "k \<le> length t"
  shows "integrate_loop solver s [k..<length t] t a = Inr (take k a @ rows)"
  using assms
proof (induction "length t - k" arbitrary: k s a rows)
  case 0
  then show ?case by simp
next
  case (Suc n)
  then have k: "k < length t" by simp
  have dr: "drop k t = t ! k # drop (Suc k) t" using k by (simp add: Cons_nth_drop_Suc)
  from Suc.prems(1) obtain row s' rows' where
    step: "integrate solver s (t ! k) = (Inr row, s')"
      "integrate_all solver s' (drop (Suc k) t) = Inr rows'" "rows = row # rows'"
    unfolding dr by (auto split: sum.splits prod.splits)
  have row: "length row = c" using Suc.prems(2) step(3) by simp
  have ak: "length (a ! k) = c" using Suc.prems(3,4) k by simp
  have sr: "set_row a k row = Inr (a[k := row])"
    using k Suc.prems(3) row ak by (simp add: set_row_def)
  have a1: "\<forall>r \<in> set (a[k := row]). length r = c"
    using Suc.prems(4) row by (auto dest!: set_update_subset_insert [THEN subsetD])
  have "integrate_loop solver s' [Suc k..<length t] t (a[k := row]) =
          Inr (take (Suc k) (a[k := row]) @ rows')"
    using Suc.hyps(2) Suc.prems(2,3) step(3) k a1
    by (intro Suc.hyps(1) [OF _ step(2)]) simp_all
  moreover have "take (Suc k) (a[k := row]) = take k a @ [row]"
    using k Suc.prems(3) by (simp add: take_Suc_conv_app_nth)
  ultimately show ?case
    using k step(1,3) sr by (simp add: upt_conv_Cons getitem_def)
qed

lemma length_set_initial: "length (set_initial bodies) = 4 * length bodies"
  by (induction bodies) simp_all

lemma set_initial_nth:
  assumes "i < length bodies"
  shows "set_initial bodies ! (4 * i) = x (bodies ! i)"
    and "set_initial bodies ! (4 * i + 1) = vx (bodies ! i)"
    and "set_initial bodies ! (4 * i + 2) = y (bodies ! i)"
    and "set_initial bodies ! (4 * i + 3) = vy (bodies ! i)"
proof -
  have "set_initial bodies ! (4 * i) = x (bodies ! i) \<and>
        set_initial bodies ! (4 * i + 1) = vx (bodies ! i) \<and>
        set_initial bodies ! (4 * i + 2) = y (bodies ! i) \<and>
        set_initial bodies ! (4 * i + 3) = vy (bodies ! i)"
    using assms
  proof (induction bodies arbitrary: i)
    case Nil
    then show ?case by simp
  next
    case (Cons b bodies)
    show ?case
    proof (cases i)
      case 0
      then show ?thesis by (simp add: numeral_2_eq_2 numeral_3_eq_3)
    next
      case (Suc k)
      have sh: "([p, q, r, u] @ rest) ! (4 + m) = rest ! m" for p q r u :: 'a and rest m
        using nth_append_length_plus [of "[p, q, r, u]" rest m] by simp
      have e: "4 * Suc k = 4 + 4 * k" "4 * Suc k + 1 = 4 + (4 * k + 1)"
        "4 * Suc k + 2 = 4 + (4 * k + 2)" "4 * Suc k + 3 = 4 + (4 * k + 3)"
        by simp_all
      from Cons.prems Suc have k: "k < length bodies" by simp
      show ?thesis
        unfolding Suc unfolding e(2,3,4) unfolding e(1) set_initial.simps sh nth_Cons_Suc
        by (rule Cons.IH [OF k])
    qed
  qed
  then show "set_initial bodies ! (4 * i) = x (bodies ! i)"
    and "set_initial bodies ! (4 * i + 1) = vx (bodies ! i)"
    and "set_initial bodies ! (4 * i + 2) = y (bodies ! i)"
    and "set_initial bodies ! (4 * i + 3) = vy (bodies ! i)"
    by simp_all
qed

lemma calc_orbits_unfold:
  assumes "linspace t0 t1 dt = Inr ts" "ts \<noteq> []"
  shows "calc_orbits solver bodies f t0 t1 dt =
           integrate_loop solver (ode_new solver f (set_initial bodies) t0 bodies) [1..<length ts] ts
             ((zeros2 (length ts) (length bodies * 4))[0 := set_initial bodies])"
  using assms
  by (simp add: calc_orbits_def Let_def set_row_def zeros2_def zeros_def length_set_initial
      mult.commute)

lemma calc_orbits_empty_grid:
  assumes "linspace t0 t1 dt = Inr []"
  shows "calc_orbits solver bodies f t0 t1 dt = Inl IndexError"
  using assms by (simp add: calc_orbits_def Let_def set_row_def zeros2_def)

lemma calc_orbits_rows:
  assumes "1 \<le> dt" "linspace t0 t1 dt = Inr ts"
    and "integrate_all solver (ode_new solver f (set_initial bodies) t0 bodies) (tl ts) = Inr rows"
    and "\<forall>row \<in> set rows. length row = 4 * length bodies"
  shows "calc_orbits solver bodies f t0 t1 dt = Inr (set_initial bodies # rows)"
proof -
  from linspace_length [of dt t0 t1] assms(1,2) have len: "length ts = nat dt" by auto
  with assms(1) have ne: "ts \<noteq> []" "1 \<le> length ts" by auto
  let ?a = "(zeros2 (length ts) (length bodies * 4))[0 := set_initial bodies]"
  have rowlen: "\<forall>r \<in> set ?a. length r = 4 * length bodies"
    by (auto simp: zeros2_def zeros_def length_set_initial
        dest!: set_update_subset_insert [THEN subsetD])
  have dr: "drop 1 ts = tl ts" by (simp add: drop_Suc)
  have "integrate_loop solver (ode_new solver f (set_initial bodies) t0 bodies) [1..<length ts] ts ?a =
          Inr (take 1 ?a @ rows)"
    by (rule integrate_loop_rows [where c = "4 * length bodies"])
       (use assms(3,4) rowlen ne in \<open>simp_all add: drop_Suc zeros2_def\<close>)
  moreover have "take 1 ?a = [set_initial bodies]"
    using ne by (cases ts) (simp_all add: zeros2_def)
  ultimately show ?thesis
    by (simp add: calc_orbits_unfold [OF assms(2) ne(1)])
qed

section \<open>Properties of the stored header\<close>

lemma rename_spec_eq:
  "rename_spec i nm k = (if k div 4 = i then Some (nm @ suffix_of (k mod 4)) else None)"
proof (cases "k div 4 = i")
  case True
  define r where "r = k mod 4"
  have k: "k = i * 4 + r" using True by (simp add: r_def idx_decomp)
  have "r < 4" by (simp add: r_def)
  then consider "r = 0" | "r = 1" | "r = 2" | "r = 3" by linarith
  then have e: "rename_spec i nm (i * 4 + r) = Some (nm @ suffix_of r)"
    by cases (simp_all add: rename_spec_def suffix_of_def)
  have "rename_spec i nm k = rename_spec i nm (i * 4 + r)" by (rule arg_cong [OF k])
  also note e
  finally show ?thesis using True by (simp add: r_def)
next
  case False
  have "k \<noteq> i * 4 + r" if "r < 4" for r
    using False idx_div [OF that, of i] by auto
  from this [of 0] this [of 1] this [of 2] this [of 3]
  have "rename_spec i nm k = None" by (simp add: rename_spec_def)
  then show ?thesis using False by simp
qed

lemma rename_columns_labelled:
  "rename_columns (rename_spec i (name (bodies ! i))) (map (labelled I bodies) [0..<m]) =
     map (labelled (insert i I) bodies) [0..<m]"
  by (auto simp: rename_columns_def labelled_def rename_spec_eq)

lemma rename_loop_labelled:
  assumes "\<forall>i \<in> set is. i < length bodies"
  shows "rename_loop is bodies (map (labelled I bodies) [0..<m]) =
           Inr (map (labelled (I \<union> set is) bodies) [0..<m])"
  using assms
proof (induction "is" arbitrary: I)
  case Nil
  show ?case by simp
next
  case (Cons i rest)
  then have i: "i < length bodies" and rest: "\<forall>i \<in> set rest. i < length bodies" by simp_all
  show ?case
    using i Cons.IH [OF rest, of "insert i I"]
    by (simp add: getitem_def rename_columns_labelled)
qed

lemma store_orbits_header_eq:
  assumes "orbit_paths \<noteq> []" "length (hd orbit_paths) = 4 * length bodies"
  shows "store_orbits_header bodies orbit_paths =
           Inr (map (labelled {..<length bodies} bodies) [0..<4 * length bodies])"
proof -
  have e: "map Position [0..<4 * length bodies] = map (labelled {} bodies) [0..<4 * length bodies]"
    by (simp add: labelled_def)
  have "store_orbits_header bodies orbit_paths =
          rename_loop [0..<length bodies] bodies (map Position [0..<4 * length bodies])"
    using assms by (cases orbit_paths) (simp_all add: store_orbits_header_def)
  also have "\<dots> = rename_loop [0..<length bodies] bodies
                      (map (labelled {} bodies) [0..<4 * length bodies])"
    by (simp only: e)
  also have "\<dots> = Inr (map (labelled ({} \<union> set [0..<length bodies]) bodies)
                           [0..<4 * length bodies])"
    by (rule rename_loop_labelled) simp
  also have "{} \<union> set [0..<length bodies] = {..<length bodies}" by auto
  finally show ?thesis .
qed

lemma labelled_components:
  assumes "i < length bodies"
  shows "labelled {..<length bodies} bodies (4 * i) = Named (name (bodies ! i) @ ''_x'')"
    and "labelled {..<length bodies} bodies (4 * i + 1) = Named (name (bodies ! i) @ ''_vx'')"
    and "labelled {..<length bodies} bodies (4 * i + 2) = Named (name (bodies ! i) @ ''_y'')"
    and "labelled {..<length bodies} bodies (4 * i + 3) = Named (name (bodies ! i) @ ''_vy'')"
  using assms idx_mod [of 0 i] idx_mod [of 1 i] idx_mod [of 2 i] idx_mod [of 3 i]
        idx_div [of 0 i] idx_div [of 1 i] idx_div [of 2 i] idx_div [of 3 i]
  by (simp_all add: labelled_def suffix_of_def mult.commute)

subsection \<open>Runs of the integrator\<close>

lemma linspace_three: "linspace 0 10 3 = Inr [0, 5, 10]"
  by (simp add: linspace_def Let_def upt_conv_Cons numeral_3_eq_3)

lemma linspace_two: "linspace 0 1 2 = Inr [0, 1]"
  by (simp add: linspace_def Let_def upt_conv_Cons numeral_2_eq_2)

lemma n_body_func_single:
  "n_body_func rnd t [p, v, q, w] [b] = Inr [v, Fin 0, w, Fin 0]"
  by (simp add: n_body_func_def zeros_def set_slice_def get_slice_def slice_indices_def in_slice_def
      enumerate_list_def getitem_def setitem_def Let_def upt_conv_Cons)

lemma euler_run_single:
  "calc_orbits (euler round64) [Body_init (Fin 1) (Fin 3) (Fin 2) (Fin 4) (Fin 5) ''a''] (n_body_func round64) 0 10 3 =
     Inr [[Fin 1, Fin 3, Fin 2, Fin 4], [Fin 16, Fin 3, Fin 22, Fin 4], [Fin 31, Fin 3, Fin 42, Fin 4]]"
proof -
  have "integrate_all (euler round64)
          (ode_new (euler round64) (n_body_func round64) (set_initial [Body_init (Fin 1) (Fin 3) (Fin 2) (Fin 4) (Fin 5) ''a''])
             0 [Body_init (Fin 1) (Fin 3) (Fin 2) (Fin 4) (Fin 5) ''a''])
          (tl [0, 5, 10]) =
        Inr [[Fin 16, Fin 3, Fin 22, Fin 4], [Fin 31, Fin 3, Fin 42, Fin 4]]"
    by (simp add: euler_def euler_integrate_def Body_init_def n_body_func_single Let_def)
  from calc_orbits_rows [OF _ linspace_three this] show ?thesis
    by (simp add: Body_init_def)
qed


lemma calc_orbits_returns:
  assumes "calc_orbits solver bodies f t0 t1 dt = Inr a"
  shows "a \<noteq> []" and "a ! 0 = set_initial bodies"
    and "\<forall>k < length a. length (a ! k) = 4 * length bodies"
    and "\<And>ts. linspace t0 t1 dt = Inr ts \<Longrightarrow> length a = length ts"
proof -
  from assms obtain ts where ts: "linspace t0 t1 dt = Inr ts"
    by (cases "linspace t0 t1 dt") (simp_all add: calc_orbits_def)
  have ne: "ts \<noteq> []"
    using assms calc_orbits_empty_grid [of t0 t1 dt solver bodies f] ts by auto
  let ?a1 = "(zeros2 (length ts) (length bodies * 4))[0 := set_initial bodies]"
  from assms have loop: "integrate_loop solver (ode_new solver f (set_initial bodies) t0 bodies)
      [1..<length ts] ts ?a1 = Inr a"
    by (simp add: calc_orbits_unfold [OF ts ne])
  note sh = integrate_loop_shape [OF loop]
  have l1: "length ?a1 = length ts" by (simp add: zeros2_def)
  have r1: "length (?a1 ! k) = 4 * length bodies" if "k < length ts" for k
    using that by (cases k) (simp_all add: zeros2_def zeros_def length_set_initial)
  have "0 \<notin> set [1..<length ts]" by simp
  with sh have "a ! 0 = ?a1 ! 0" by blast
  also have "\<dots> = set_initial bodies" using ne by (simp add: zeros2_def)
  finally show "a ! 0 = set_initial bodies" .
  have la: "length a = length ts" using sh l1 by simp
  show "\<forall>k < length a. length (a ! k) = 4 * length bodies"
  proof (intro allI impI)
    fix k assume k: "k < length a"
    then have "k < length ?a1" using la l1 by simp
    with sh have "length (a ! k) = length (?a1 ! k)" by blast
    also have "\<dots> = 4 * length bodies" using k la by (intro r1) simp
    finally show "length (a ! k) = 4 * length bodies" .
  qed
  have "length a \<noteq> 0" using la ne by simp
  then show "a \<noteq> []" by simp
  show "length a = length ts'" if "linspace t0 t1 dt = Inr ts'" for ts'
    using that ts la by simp
qed

lemma linspace_one: "linspace t0 t1 1 = Inr [t0]"
  by (simp add: linspace_def Let_def)

text \<open>
  Claim C2. Whenever \<^verbatim>\<open>calc_orbits\<close> returns an array, whatever the solver, the
  right-hand side, the time span and the sample count, the array has a first row, that row
  is the state vector \<^verbatim>\<open>set_initial\<close> builds from the bodies, and its components
  \<open>4 * i\<close>, \<open>4 * i + 1\<close>, \<open>4 * i + 2\<close>, \<open>4 * i + 3\<close> are the attributes \<open>x\<close>, \<open>vx\<close>,
  \<open>y\<close>, \<open>vy\<close> of body \<open>i\<close>. The row is recorded without a step of the solver: with a
  single sample \<^verbatim>\<open>calc_orbits\<close> returns exactly that row for every solver.
\<close>

theorem calc_orbits_first_row:
  "(\<forall>a. calc_orbits solver bodies f t0 t1 dt = Inr a \<longrightarrow>
         a \<noteq> [] \<and> a ! 0 = set_initial bodies \<and>
         (\<forall>i < length bodies.
            a ! 0 ! (4 * i) = x (bodies ! i) \<and> a ! 0 ! (4 * i + 1) = vx (bodies ! i) \<and>
            a ! 0 ! (4 * i + 2) = y (bodies ! i) \<and> a ! 0 ! (4 * i + 3) = vy (bodies ! i))) \<and>
   calc_orbits solver bodies f t0 t1 1 = Inr [set_initial bodies]"
proof (rule conjI)
  show "\<forall>a. calc_orbits solver bodies f t0 t1 dt = Inr a \<longrightarrow>
         a \<noteq> [] \<and> a ! 0 = set_initial bodies \<and>
         (\<forall>i < length bodies.
            a ! 0 ! (4 * i) = x (bodies ! i) \<and> a ! 0 ! (4 * i + 1) = vx (bodies ! i) \<and>
            a ! 0 ! (4 * i + 2) = y (bodies ! i) \<and> a ! 0 ! (4 * i + 3) = vy (bodies ! i))"
  proof (intro allI impI)
    fix a assume a: "calc_orbits solver bodies f t0 t1 dt = Inr a"
    note r = calc_orbits_returns [OF a]
    have "\<forall>i < length bodies.
            a ! 0 ! (4 * i) = x (bodies ! i) \<and> a ! 0 ! (4 * i + 1) = vx (bodies ! i) \<and>
            a ! 0 ! (4 * i + 2) = y (bodies ! i) \<and> a ! 0 ! (4 * i + 3) = vy (bodies ! i)"
    proof (intro allI impI)
      fix i assume i: "i < length bodies"
      note c = set_initial_nth [OF i]
      show "a ! 0 ! (4 * i) = x (bodies ! i) \<and> a ! 0 ! (4 * i + 1) = vx (bodies ! i) \<and>
            a ! 0 ! (4 * i + 2) = y (bodies ! i) \<and> a ! 0 ! (4 * i + 3) = vy (bodies ! i)"
        unfolding r(2) using c(1) c(2) c(3) c(4) by (simp only: simp_thms)
    qed
    then show "a \<noteq> [] \<and> a ! 0 = set_initial bodies \<and>
         (\<forall>i < length bodies.
            a ! 0 ! (4 * i) = x (bodies ! i) \<and> a ! 0 ! (4 * i + 1) = vx (bodies ! i) \<and>
            a ! 0 ! (4 * i + 2) = y (bodies ! i) \<and> a ! 0 ! (4 * i + 3) = vy (bodies ! i))"
      using r(1) r(2) by (simp only: simp_thms)
  qed
next
  have "integrate_all solver (ode_new solver f (set_initial bodies) t0 bodies) (tl [t0]) = Inr []"
    by simp
  from calc_orbits_rows [OF _ linspace_one this]
  show "calc_orbits solver bodies f t0 t1 1 = Inr [set_initial bodies]" by simp
qed

theorem calc_orbits_first_row_witness:
  "calc_orbits (euler round64) [Body_init (Fin 1) (Fin 3) (Fin 2) (Fin 4) (Fin 5) ''a''] (n_body_func round64) 0 10 3 =
     Inr [[Fin 1, Fin 3, Fin 2, Fin 4], [Fin 16, Fin 3, Fin 22, Fin 4], [Fin 31, Fin 3, Fin 42, Fin 4]] \<and>
   [[Fin 1, Fin 3, Fin 2, Fin 4], [Fin 16, Fin 3, Fin 22, Fin 4], [Fin 31, Fin 3, Fin 42, Fin 4]] ! 0 =
     set_initial [Body_init (Fin 1) (Fin 3) (Fin 2) (Fin 4) (Fin 5) ''a''] \<and>
   calc_orbits (euler round64) [Body_init (Fin 1) (Fin 3) (Fin 2) (Fin 4) (Fin 5) ''a''] (n_body_func round64) 0 10 1 =
     Inr [[Fin 1, Fin 3, Fin 2, Fin 4]]"
  using calc_orbits_first_row
    [of "euler round64" "[Body_init (Fin 1) (Fin 3) (Fin 2) (Fin 4) (Fin 5) ''a'']" "n_body_func round64" 0 10 3]
    euler_run_single
  by (simp add: Body_init_def)

lemma header_single:
  "store_orbits_header [Body_init (Fin 1) (Fin 3) (Fin 2) (Fin 4) (Fin 5) ''a'']
     [[Fin 1, Fin 3, Fin 2, Fin 4], [Fin 16, Fin 3, Fin 22, Fin 4], [Fin 31, Fin 3, Fin 42, Fin 4]] =
   Inr [Named ''a_x'', Named ''a_vx'', Named ''a_y'', Named ''a_vy'']"
  by (simp add: store_orbits_header_def getitem_def rename_columns_def rename_spec_def
      Body_init_def upt_conv_Cons)

text \<open>
  Claim C6, as stated, fails: a row of the array that \<^verbatim>\<open>calc_orbits\<close> returns has the
  \<open>4 * n\<close> columns of the state vector and no time column, and the header that
  \<^verbatim>\<open>store_orbits\<close> writes has no time column either. For one body and three samples the
  rows have four entries, not five.
\<close>

theorem calc_orbits_time_column_counterexample:
  "calc_orbits (euler round64) [Body_init (Fin 1) (Fin 3) (Fin 2) (Fin 4) (Fin 5) ''a''] (n_body_func round64) 0 10 3 =
     Inr [[Fin 1, Fin 3, Fin 2, Fin 4], [Fin 16, Fin 3, Fin 22, Fin 4], [Fin 31, Fin 3, Fin 42, Fin 4]] \<and>
   length [Fin 1, Fin 3, Fin 2, Fin 4] \<noteq>
     4 * length [Body_init (Fin 1) (Fin 3) (Fin 2) (Fin 4) (Fin 5) ''a''] + 1 \<and>
   store_orbits_header [Body_init (Fin 1) (Fin 3) (Fin 2) (Fin 4) (Fin 5) ''a'']
     [[Fin 1, Fin 3, Fin 2, Fin 4], [Fin 16, Fin 3, Fin 22, Fin 4], [Fin 31, Fin 3, Fin 42, Fin 4]] =
   Inr [Named ''a_x'', Named ''a_vx'', Named ''a_y'', Named ''a_vy'']"
  using euler_run_single header_single by simp

text \<open>
  Claim C6, amended. Every row of the array that \<^verbatim>\<open>calc_orbits\<close> returns has exactly
  \<open>4 * n\<close> columns, the layout of the state vector, with no time column (the time of a
  row is given by its index in the time grid only); for such an array
  \<^verbatim>\<open>store_orbits\<close> labels the columns \<open>4 * i\<close>, \<open>4 * i + 1\<close>, \<open>4 * i + 2\<close>,
  \<open>4 * i + 3\<close> with the name of body \<open>i\<close> followed by \<open>_x\<close>, \<open>_vx\<close>, \<open>_y\<close>, \<open>_vy\<close>, so
  that a sample is addressed by its row and a component of a body by its column.
\<close>

theorem calc_orbits_columns:
  assumes "calc_orbits solver bodies f t0 t1 dt = Inr a"
  shows "(\<forall>row \<in> set a. length row = 4 * length bodies) \<and>
         (\<exists>h. store_orbits_header bodies a = Inr h \<and> length h = 4 * length bodies \<and>
              (\<forall>i < length bodies.
                 h ! (4 * i) = Named (name (bodies ! i) @ ''_x'') \<and>
                 h ! (4 * i + 1) = Named (name (bodies ! i) @ ''_vx'') \<and>
                 h ! (4 * i + 2) = Named (name (bodies ! i) @ ''_y'') \<and>
                 h ! (4 * i + 3) = Named (name (bodies ! i) @ ''_vy'')))"
proof (rule conjI)
  note r = calc_orbits_returns [OF assms]
  show rows: "\<forall>row \<in> set a. length row = 4 * length bodies"
    using r(3) by (auto simp: in_set_conv_nth)
  have hd: "length (hd a) = 4 * length bodies"
    using r(1) rows by (cases a) simp_all
  let ?h = "map (labelled {..<length bodies} bodies) [0..<4 * length bodies]"
  have h: "store_orbits_header bodies a = Inr ?h"
    by (rule store_orbits_header_eq [OF r(1) hd])
  have comp: "\<forall>i < length bodies.
                 ?h ! (4 * i) = Named (name (bodies ! i) @ ''_x'') \<and>
                 ?h ! (4 * i + 1) = Named (name (bodies ! i) @ ''_vx'') \<and>
                 ?h ! (4 * i + 2) = Named (name (bodies ! i) @ ''_y'') \<and>
                 ?h ! (4 * i + 3) = Named (name (bodies ! i) @ ''_vy'')"
  proof (intro allI impI)
    fix i assume i: "i < length bodies"
    have k: "4 * i < 4 * length bodies" "4 * i + 1 < 4 * length bodies"
      "4 * i + 2 < 4 * length bodies" "4 * i + 3 < 4 * length bodies"
      using i by simp_all
    have n: "map g [0..<4 * length bodies] ! k = g k" if "k < 4 * length bodies"
      for k and g :: "nat \<Rightarrow> label"
      using that by simp
    note c = labelled_components [OF i]
    show "?h ! (4 * i) = Named (name (bodies ! i) @ ''_x'') \<and>
                 ?h ! (4 * i + 1) = Named (name (bodies ! i) @ ''_vx'') \<and>
                 ?h ! (4 * i + 2) = Named (name (bodies ! i) @ ''_y'') \<and>
                 ?h ! (4 * i + 3) = Named (name (bodies ! i) @ ''_vy'')"
      unfolding n [OF k(1)] n [OF k(2)] n [OF k(3)] n [OF k(4)]
      using c(1) c(2) c(3) c(4) by (simp only: simp_thms)
  qed
  show "\<exists>h. store_orbits_header bodies a = Inr h \<and> length h = 4 * length bodies \<and>
              (\<forall>i < length bodies.
                 h ! (4 * i) = Named (name (bodies ! i) @ ''_x'') \<and>
                 h ! (4 * i + 1) = Named (name (bodies ! i) @ ''_vx'') \<and>
                 h ! (4 * i + 2) = Named (name (bodies ! i) @ ''_y'') \<and>
                 h ! (4 * i + 3) = Named (name (bodies ! i) @ ''_vy''))"
  proof (rule exI [of _ ?h], intro conjI)
    show "store_orbits_header bodies a = Inr ?h" by (rule h)
    show "length ?h = 4 * length bodies" by simp
    show "\<forall>i < length bodies.
                 ?h ! (4 * i) = Named (name (bodies ! i) @ ''_x'') \<and>
                 ?h ! (4 * i + 1) = Named (name (bodies ! i) @ ''_vx'') \<and>
                 ?h ! (4 * i + 2) = Named (name (bodies ! i) @ ''_y'') \<and>
                 ?h ! (4 * i + 3) = Named (name (bodies ! i) @ ''_vy'')" by (rule comp)
  qed
qed

theorem calc_orbits_columns_witness:
  "list_all (\<lambda>row. length row = 4)
     [[Fin 1, Fin 3, Fin 2, Fin 4], [Fin 16, Fin 3, Fin 22, Fin 4], [Fin 31, Fin 3, Fin 42, Fin 4]] \<and>
   (\<exists>h. store_orbits_header [Body_init (Fin 1) (Fin 3) (Fin 2) (Fin 4) (Fin 5) ''a'']
          [[Fin 1, Fin 3, Fin 2, Fin 4], [Fin 16, Fin 3, Fin 22, Fin 4],
           [Fin 31, Fin 3, Fin 42, Fin 4]] = Inr h \<and>
        length h = 4 \<and> h ! 0 = Named ''a_x'' \<and> h ! 1 = Named ''a_vx'' \<and>
        h ! 2 = Named ''a_y'' \<and> h ! 3 = Named ''a_vy'')"
  using calc_orbits_columns [OF euler_run_single]
  by (simp add: Body_init_def numeral_2_eq_2)

lemma integrate_all_length:
  "integrate_all solver s ts = Inr rows \<Longrightarrow> length rows = length ts"
proof (induction ts arbitrary: s rows)
  case Nil
  then show ?case by simp
next
  case (Cons ti ts)
  from Cons.prems obtain row s' rows' where
    step: "integrate solver s ti = (Inr row, s')" "integrate_all solver s' ts = Inr rows'"
      "rows = row # rows'"
    by (auto split: sum.splits prod.splits)
  from Cons.IH [OF step(2)] step(3) show ?case by simp
qed

lemma linspace_grid:
  assumes "2 \<le> dt"
  obtains ts where "linspace t0 t1 dt = Inr ts" "length ts = nat dt" "ts ! 0 = t0"
    "ts ! (nat dt - 1) = t1"
    "\<forall>i. Suc i < nat dt \<longrightarrow> ts ! Suc i - ts ! i = (t1 - t0) / (real_of_int dt - 1)"
proof -
  from assms have "0 \<le> dt" by simp
  from linspace_length [OF this, of t0 t1] obtain ts where
    ts: "linspace t0 t1 dt = Inr ts" and len: "length ts = nat dt"
    by (elim exE conjE)
  note nth = linspace_nth [OF assms ts]
  have n: "2 \<le> nat dt" using assms by simp
  have first: "ts ! 0 = t0" using nth [of 0] n by simp
  have d: "real_of_int dt - 1 = real (nat dt - 1)"
  proof -
    have "real_of_int dt = real (nat dt)" using assms by simp
    moreover have "real (nat dt - 1) = real (nat dt) - 1" using n by (simp add: of_nat_diff)
    ultimately show ?thesis by simp
  qed
  have nz: "real (nat dt - 1) \<noteq> 0" using n by simp
  have "ts ! (nat dt - 1) = t0 + real (nat dt - 1) * ((t1 - t0) / real (nat dt - 1))"
    using nth [of "nat dt - 1"] n unfolding d by simp
  also have "\<dots> = t1" using nz by simp
  finally have last: "ts ! (nat dt - 1) = t1" .
  have step: "\<forall>i. Suc i < nat dt \<longrightarrow> ts ! Suc i - ts ! i = (t1 - t0) / (real_of_int dt - 1)"
  proof (intro allI impI)
    fix i assume i: "Suc i < nat dt"
    then have j: "i < nat dt" by simp
    define q where "q = (t1 - t0) / (real_of_int dt - 1)"
    have "ts ! Suc i = t0 + real (Suc i) * q" "ts ! i = t0 + real i * q"
      unfolding q_def by (rule nth [OF i], rule nth [OF j])
    then have "ts ! Suc i - ts ! i = q" by (simp add: algebra_simps)
    then show "ts ! Suc i - ts ! i = (t1 - t0) / (real_of_int dt - 1)"
      by (simp only: q_def)
  qed
  from ts len first last step show ?thesis by (rule that)
qed

text \<open>
  Claim C7. For a sample parameter \<open>dt \<ge> 2\<close> the output time grid has exactly \<open>dt\<close>
  values, the first is \<open>t0\<close>, the last is \<open>t1\<close>, and consecutive values differ by
  \<open>(t1 - t0) / (dt - 1)\<close>: \<open>dt\<close> is a number of samples, not a step size. Every array that
  \<^verbatim>\<open>calc_orbits\<close> returns has \<open>dt\<close> rows, and when the solver returns a state array for
  each grid time after the first, \<^verbatim>\<open>calc_orbits\<close> does return: the initial row followed
  by those arrays, one row per grid time.
\<close>

theorem calc_orbits_sample_count:
  assumes "2 \<le> dt"
  shows "\<exists>ts. linspace t0 t1 dt = Inr ts \<and> length ts = nat dt \<and> ts ! 0 = t0 \<and>
           ts ! (nat dt - 1) = t1 \<and>
           (\<forall>i. Suc i < nat dt \<longrightarrow> ts ! Suc i - ts ! i = (t1 - t0) / (real_of_int dt - 1)) \<and>
           (\<forall>a. calc_orbits solver bodies f t0 t1 dt = Inr a \<longrightarrow> length a = nat dt) \<and>
           (\<forall>rows.
              integrate_all solver (ode_new solver f (set_initial bodies) t0 bodies) (tl ts) = Inr rows \<and>
              (\<forall>row \<in> set rows. length row = 4 * length bodies) \<longrightarrow>
              calc_orbits solver bodies f t0 t1 dt = Inr (set_initial bodies # rows) \<and>
              length (set_initial bodies # rows) = nat dt)"
proof -
  from linspace_grid [OF assms, of t0 t1] obtain ts where
    g: "linspace t0 t1 dt = Inr ts" "length ts = nat dt" "ts ! 0 = t0" "ts ! (nat dt - 1) = t1"
      "\<forall>i. Suc i < nat dt \<longrightarrow> ts ! Suc i - ts ! i = (t1 - t0) / (real_of_int dt - 1)" .
  have ret: "\<forall>a. calc_orbits solver bodies f t0 t1 dt = Inr a \<longrightarrow> length a = nat dt"
  proof (intro allI impI)
    fix a assume "calc_orbits solver bodies f t0 t1 dt = Inr a"
    from calc_orbits_returns(4) [OF this g(1)] g(2) show "length a = nat dt" by simp
  qed
  have run: "\<forall>rows.
              integrate_all solver (ode_new solver f (set_initial bodies) t0 bodies) (tl ts) = Inr rows \<and>
              (\<forall>row \<in> set rows. length row = 4 * length bodies) \<longrightarrow>
              calc_orbits solver bodies f t0 t1 dt = Inr (set_initial bodies # rows) \<and>
              length (set_initial bodies # rows) = nat dt"
  proof (intro allI impI, elim conjE)
    fix rows
    assume r: "integrate_all solver (ode_new solver f (set_initial bodies) t0 bodies) (tl ts) = Inr rows"
      and l: "\<forall>row \<in> set rows. length row = 4 * length bodies"
    from assms have one: "1 \<le> dt" by simp
    have c: "calc_orbits solver bodies f t0 t1 dt = Inr (set_initial bodies # rows)"
      by (rule calc_orbits_rows [OF one g(1) r l])
    have "length rows = length (tl ts)" by (rule integrate_all_length [OF r])
    then have "length (set_initial bodies # rows) = nat dt" using g(2) assms by simp
    with c show "calc_orbits solver bodies f t0 t1 dt = Inr (set_initial bodies # rows) \<and>
              length (set_initial bodies # rows) = nat dt" by (rule conjI)
  qed
  show ?thesis
    by (rule exI [of _ ts]) (intro conjI g ret run)
qed


theorem calc_orbits_sample_count_witness:
  "(2::int) \<le> 3 \<and>
   (\<exists>ts. linspace 0 10 3 = Inr ts \<and> length ts = 3 \<and> ts ! 0 = 0 \<and> ts ! 2 = 10 \<and>
         ts ! 1 - ts ! 0 = 5 \<and> ts ! 2 - ts ! 1 = 5) \<and>
   (\<exists>a. calc_orbits (euler round64) [Body_init (Fin 1) (Fin 3) (Fin 2) (Fin 4) (Fin 5) ''a''] (n_body_func round64) 0 10 3 =
          Inr a \<and> length a = 3)"
proof -
  have h: "(2::int) \<le> 3" by simp
  from calc_orbits_sample_count
    [OF h, of 0 10 "euler round64" "[Body_init (Fin 1) (Fin 3) (Fin 2) (Fin 4) (Fin 5) ''a'']" "n_body_func round64"]
  show ?thesis
    using euler_run_single linspace_three by (simp add: numeral_2_eq_2)
qed

lemma integrate_all_status:
  "integrate_all (solver\<lparr>successful := status\<rparr>) s ts = integrate_all solver s ts"
  by (induction ts arbitrary: s) (simp_all split: prod.splits sum.splits)

lemma n_body_func_two_coincident:
  "n_body_func round64 t [Fin 1, Fin 0, Fin 2, Fin 0, Fin 1, Fin 0, Fin 2, Fin 0]
     [\<lparr>x = Fin 1, y = Fin 2, vx = Fin 0, vy = Fin 0, mass = Fin 5, name = ''a''\<rparr>,
      \<lparr>x = Fin 1, y = Fin 2, vx = Fin 0, vy = Fin 0, mass = Fin 7, name = ''b''\<rparr>] =
   Inr [Fin 0, NaN, Fin 0, NaN, Fin 0, NaN, Fin 0, NaN]"
  by (simp add: n_body_func_def zeros_def set_slice_def get_slice_def slice_indices_def in_slice_def
      enumerate_list_def getitem_def setitem_def Let_def upt_conv_Cons fsub_def G_def)

lemma euler_step_coincident:
  "integrate_all (euler round64)
     (ode_new (euler round64) (n_body_func round64)
        (set_initial [Body_init (Fin 1) (Fin 0) (Fin 2) (Fin 0) (Fin 5) ''a'',
                      Body_init (Fin 1) (Fin 0) (Fin 2) (Fin 0) (Fin 7) ''b''])
        0 [Body_init (Fin 1) (Fin 0) (Fin 2) (Fin 0) (Fin 5) ''a'',
           Body_init (Fin 1) (Fin 0) (Fin 2) (Fin 0) (Fin 7) ''b''])
     (tl [0, 1]) =
   Inr [[Fin 1, NaN, Fin 2, NaN, Fin 1, NaN, Fin 2, NaN]]"
  by (simp add: euler_def euler_integrate_def Body_init_def n_body_func_two_coincident Let_def)

lemma euler_run_coincident:
  "calc_orbits (euler round64) [Body_init (Fin 1) (Fin 0) (Fin 2) (Fin 0) (Fin 5) ''a'',
                      Body_init (Fin 1) (Fin 0) (Fin 2) (Fin 0) (Fin 7) ''b''] (n_body_func round64) 0 1 2 =
     Inr [[Fin 1, Fin 0, Fin 2, Fin 0, Fin 1, Fin 0, Fin 2, Fin 0],
          [Fin 1, NaN, Fin 2, NaN, Fin 1, NaN, Fin 2, NaN]]"
  using calc_orbits_rows [OF _ linspace_two euler_step_coincident]
  by (simp add: Body_init_def)

text \<open>
  Claim C4, as stated, fails: \<^verbatim>\<open>calc_orbits\<close> never reads the status of the solver and
  never tests a row. With two bodies at the same position the force evaluation returns
  values that are not numbers, the step of the stand-in solver is recorded as failed, and
  \<^verbatim>\<open>calc_orbits\<close> still returns an array, whose second row holds those values.
\<close>

theorem calc_orbits_no_failure_counterexample:
  "n_body_func round64 0
     (set_initial [Body_init (Fin 1) (Fin 0) (Fin 2) (Fin 0) (Fin 5) ''a'',
                   Body_init (Fin 1) (Fin 0) (Fin 2) (Fin 0) (Fin 7) ''b''])
     [Body_init (Fin 1) (Fin 0) (Fin 2) (Fin 0) (Fin 5) ''a'',
      Body_init (Fin 1) (Fin 0) (Fin 2) (Fin 0) (Fin 7) ''b''] =
     Inr [Fin 0, NaN, Fin 0, NaN, Fin 0, NaN, Fin 0, NaN] \<and>
   calc_orbits (euler round64) [Body_init (Fin 1) (Fin 0) (Fin 2) (Fin 0) (Fin 5) ''a'',
                      Body_init (Fin 1) (Fin 0) (Fin 2) (Fin 0) (Fin 7) ''b''] (n_body_func round64) 0 1 2 =
     Inr [[Fin 1, Fin 0, Fin 2, Fin 0, Fin 1, Fin 0, Fin 2, Fin 0],
          [Fin 1, NaN, Fin 2, NaN, Fin 1, NaN, Fin 2, NaN]] \<and>
   \<not> successful (euler round64)
       (integrator_after (euler round64)
          (ode_new (euler round64) (n_body_func round64)
             (set_initial [Body_init (Fin 1) (Fin 0) (Fin 2) (Fin 0) (Fin 5) ''a'',
                           Body_init (Fin 1) (Fin 0) (Fin 2) (Fin 0) (Fin 7) ''b''])
             0 [Body_init (Fin 1) (Fin 0) (Fin 2) (Fin 0) (Fin 5) ''a'',
                Body_init (Fin 1) (Fin 0) (Fin 2) (Fin 0) (Fin 7) ''b''])
          [1])"
proof (intro conjI)
  show "n_body_func round64 0
     (set_initial [Body_init (Fin 1) (Fin 0) (Fin 2) (Fin 0) (Fin 5) ''a'',
                   Body_init (Fin 1) (Fin 0) (Fin 2) (Fin 0) (Fin 7) ''b''])
     [Body_init (Fin 1) (Fin 0) (Fin 2) (Fin 0) (Fin 5) ''a'',
      Body_init (Fin 1) (Fin 0) (Fin 2) (Fin 0) (Fin 7) ''b''] =
     Inr [Fin 0, NaN, Fin 0, NaN, Fin 0, NaN, Fin 0, NaN]"
    by (simp add: Body_init_def n_body_func_two_coincident)
  show "calc_orbits (euler round64) [Body_init (Fin 1) (Fin 0) (Fin 2) (Fin 0) (Fin 5) ''a'',
                      Body_init (Fin 1) (Fin 0) (Fin 2) (Fin 0) (Fin 7) ''b''] (n_body_func round64) 0 1 2 =
     Inr [[Fin 1, Fin 0, Fin 2, Fin 0, Fin 1, Fin 0, Fin 2, Fin 0],
          [Fin 1, NaN, Fin 2, NaN, Fin 1, NaN, Fin 2, NaN]]"
    by (rule euler_run_coincident)
  show "\<not> successful (euler round64)
       (integrator_after (euler round64)
          (ode_new (euler round64) (n_body_func round64)
             (set_initial [Body_init (Fin 1) (Fin 0) (Fin 2) (Fin 0) (Fin 5) ''a'',
                           Body_init (Fin 1) (Fin 0) (Fin 2) (Fin 0) (Fin 7) ''b''])
             0 [Body_init (Fin 1) (Fin 0) (Fin 2) (Fin 0) (Fin 5) ''a'',
                Body_init (Fin 1) (Fin 0) (Fin 2) (Fin 0) (Fin 7) ''b''])
          [1])"
    by (simp add: euler_def euler_integrate_def Body_init_def n_body_func_two_coincident Let_def)
qed

text \<open>
  Claim C4, amended. \<^verbatim>\<open>calc_orbits\<close> does no check of its own: whenever the sample count
  is at least one and every \<open>integrate\<close> call returns an array of the length of the state
  vector, it returns the initial row followed by exactly those arrays, whatever status the
  solver reports and whatever values, finite or not, the arrays hold. A failure can
  therefore come only from a sample count below one or from an \<open>integrate\<close> call that raises
  or returns an array of another shape.
\<close>

theorem calc_orbits_unchecked:
  assumes "1 \<le> dt" "linspace t0 t1 dt = Inr ts"
    and "integrate_all solver (ode_new solver f (set_initial bodies) t0 bodies) (tl ts) = Inr rows"
    and "\<forall>row \<in> set rows. length row = 4 * length bodies"
  shows "\<forall>status. calc_orbits (solver\<lparr>successful := status\<rparr>) bodies f t0 t1 dt =
           Inr (set_initial bodies # rows)"
proof
  fix status
  have "integrate_all (solver\<lparr>successful := status\<rparr>)
          (ode_new (solver\<lparr>successful := status\<rparr>) f (set_initial bodies) t0 bodies) (tl ts) = Inr rows"
    using assms(3) by (simp add: integrate_all_status)
  from calc_orbits_rows [OF assms(1,2) this assms(4)]
  show "calc_orbits (solver\<lparr>successful := status\<rparr>) bodies f t0 t1 dt =
           Inr (set_initial bodies # rows)" .
qed

theorem calc_orbits_unchecked_witness:
  "calc_orbits ((euler round64)\<lparr>successful := \<lambda>s. False\<rparr>)
     [Body_init (Fin 1) (Fin 0) (Fin 2) (Fin 0) (Fin 5) ''a'',
      Body_init (Fin 1) (Fin 0) (Fin 2) (Fin 0) (Fin 7) ''b''] (n_body_func round64) 0 1 2 =
     Inr [[Fin 1, Fin 0, Fin 2, Fin 0, Fin 1, Fin 0, Fin 2, Fin 0],
          [Fin 1, NaN, Fin 2, NaN, Fin 1, NaN, Fin 2, NaN]]"
proof -
  have one: "(1::int) \<le> 2" by simp
  have len: "\<forall>row \<in> set [[Fin 1, NaN, Fin 2, NaN, Fin 1, NaN, Fin 2, NaN]].
      length row = 4 * length [Body_init (Fin 1) (Fin 0) (Fin 2) (Fin 0) (Fin 5) ''a'',
                               Body_init (Fin 1) (Fin 0) (Fin 2) (Fin 0) (Fin 7) ''b'']"
    by simp
  from calc_orbits_unchecked [OF one linspace_two euler_step_coincident len, rule_format, of "\<lambda>s. False"]
  show ?thesis by (simp add: Body_init_def)
qed

section \<open>Effects of the evaluator\<close>

lemma deref_simps:
  "deref st [] = []"
  "deref st ((j, r) # js) = (j, objects st r) # deref st js"
  by (simp_all add: deref_def)

lemma deref_enumerate: "deref st (enumerate_list bodies) = enumerate_list (bodies_of st bodies)"
  by (simp add: deref_def enumerate_list_def bodies_of_def zip_map2)

lemma write_array_simps:
  "arrays (write_array d a st) d = a"
  "d \<noteq> p \<Longrightarrow> arrays (write_array d a st) p = arrays st p"
  "objects (write_array d a st) = objects st"
  "lim (write_array d a st) = lim st"
  "write_array d a (write_array d b st) = write_array d a st"
  "write_array d (arrays st d) st = st"
  by (simp_all add: write_array_def)

lemma deref_write_array: "deref (write_array d a st) js = deref st js"
  by (simp add: deref_def write_array_simps)

lemma inner_loop_st_eq:
  "inner_loop_st rnd st p i xb yb js acc = inner_loop rnd (arrays st p) i xb yb (deref st js) acc"
proof (induction js arbitrary: acc)
  case Nil
  show ?case by (simp add: deref_simps)
next
  case (Cons jr js)
  obtain j r where jr: "jr = (j, r)" by (cases jr)
  obtain dx dy where acc: "acc = (dx, dy)" by (cases acc)
  show ?case
    unfolding jr acc deref_simps
    using Cons.IH by (cases "i = j") (simp_all add: Let_def split: sum.splits)
qed

lemma outer_loop_st_eq:
  assumes "d \<noteq> p"
  shows "\<exists>a'. snd (outer_loop_st rnd rest p bodies d st) = write_array d a' st \<and>
           (case outer_loop rnd (deref st rest) (arrays st p) (deref st bodies) (arrays st d) of
              Inl e \<Rightarrow> fst (outer_loop_st rnd rest p bodies d st) = Inl e
            | Inr a \<Rightarrow> fst (outer_loop_st rnd rest p bodies d st) = Inr () \<and> a' = a)"
proof (induction rest arbitrary: st)
  case Nil
  show ?case
    by (rule exI [of _ "arrays st d"]) (simp add: deref_simps write_array_simps)
next
  case (Cons ib rest)
  obtain i b where ib: "ib = (i, b)" by (cases ib)
  let ?pv = "arrays st p"
  show ?case
  proof (cases "getitem ?pv (i * 4)")
    case (Inl e)
    then show ?thesis
      by (intro exI [of _ "arrays st d"]) (simp add: ib deref_simps write_array_simps)
  next
    case xb: (Inr xb)
    show ?thesis
    proof (cases "getitem ?pv (i * 4 + 2)")
      case (Inl e)
      then show ?thesis using xb
        by (intro exI [of _ "arrays st d"]) (simp add: ib deref_simps write_array_simps)
    next
      case yb: (Inr yb)
      show ?thesis
      proof (cases "inner_loop rnd ?pv i xb yb (deref st bodies) (Fin 0, Fin 0)")
        case (Inl e)
        then show ?thesis using xb yb
          by (intro exI [of _ "arrays st d"])
             (simp add: ib deref_simps write_array_simps inner_loop_st_eq)
      next
        case acc: (Inr acc)
        obtain dx dy where dxy: "acc = (dx, dy)" by (cases acc)
        show ?thesis
        proof (cases "setitem (arrays st d) (i * 4 + 1) dx")
          case (Inl e)
          then show ?thesis using xb yb acc dxy
            by (intro exI [of _ "arrays st d"])
               (simp add: ib deref_simps write_array_simps inner_loop_st_eq)
        next
          case a1: (Inr a1)
          show ?thesis
          proof (cases "setitem a1 (i * 4 + 3) dy")
            case (Inl e)
            then show ?thesis using xb yb acc dxy a1
              by (intro exI [of _ a1])
                 (simp add: ib deref_simps write_array_simps inner_loop_st_eq Let_def)
          next
            case a2: (Inr a2)
            let ?st2 = "write_array d a2 (write_array d a1 st)"
            have s2: "?st2 = write_array d a2 st" by (simp add: write_array_simps)
            have step: "outer_loop_st rnd (ib # rest) p bodies d st = outer_loop_st rnd rest p bodies d ?st2"
              using xb yb acc dxy a1 a2
              by (simp add: ib write_array_simps inner_loop_st_eq Let_def)
            have pure: "outer_loop rnd (deref st (ib # rest)) ?pv (deref st bodies) (arrays st d) =
                        outer_loop rnd (deref st rest) ?pv (deref st bodies) a2"
              using xb yb acc dxy a1 a2 by (simp add: ib deref_simps)
            from Cons.IH [of ?st2] obtain a' where
              ih: "snd (outer_loop_st rnd rest p bodies d ?st2) = write_array d a' ?st2"
                "case outer_loop rnd (deref ?st2 rest) (arrays ?st2 p) (deref ?st2 bodies) (arrays ?st2 d) of
                   Inl e \<Rightarrow> fst (outer_loop_st rnd rest p bodies d ?st2) = Inl e
                 | Inr a \<Rightarrow> fst (outer_loop_st rnd rest p bodies d ?st2) = Inr () \<and> a' = a"
              by (elim exE conjE)
            have "write_array d a' ?st2 = write_array d a' st" by (simp add: write_array_simps)
            with ih show ?thesis
              unfolding step pure
              using assms
              by (intro exI [of _ a']) (simp add: write_array_simps deref_write_array)
          qed
        qed
      qed
    qed
  qed
qed

text \<open>
  Claim C10. Run on a store in which the state vector is an existing array,
  \<^verbatim>\<open>n_body_func\<close> leaves every \<^verbatim>\<open>Body\<close> object and every existing array, the state
  vector among them, as they were; the only address it writes is the one of the array it
  creates. What it returns is the address of that array, whose contents are the value of
  the function \<open>n_body_func\<close> at the time, the contents of the state vector and the
  bodies, or the exception that function gives: the result depends on nothing else, so
  calls with equal arguments give equal results. The arithmetic plays no part in this:
  the statement holds for every rounding \<open>rnd\<close>, so for \<open>round64\<close>, the arithmetic of the
  program.
\<close>

theorem n_body_func_frame:
  assumes "p < lim st"
  shows "objects (snd (n_body_func_st rnd t p bodies st)) = objects st \<and>
         (\<forall>q. q \<noteq> lim st \<longrightarrow> arrays (snd (n_body_func_st rnd t p bodies st)) q = arrays st q) \<and>
         arrays (snd (n_body_func_st rnd t p bodies st)) p = arrays st p \<and>
         lim (snd (n_body_func_st rnd t p bodies st)) = Suc (lim st) \<and>
         (case n_body_func rnd t (arrays st p) (bodies_of st bodies) of
            Inl e \<Rightarrow> fst (n_body_func_st rnd t p bodies st) = Inl e
          | Inr dv \<Rightarrow> fst (n_body_func_st rnd t p bodies st) = Inr (lim st) \<and>
                     arrays (snd (n_body_func_st rnd t p bodies st)) (lim st) = dv)"
proof -
  define d where "d = lim st"
  define pv where "pv = arrays st p"
  define z where "z = zeros (4 * length bodies)"
  define st0 where "st0 = st\<lparr>arrays := (arrays st)(d := z), lim := Suc d\<rparr>"
  have dp: "d \<noteq> p" using assms by (simp add: d_def)
  have st0: "arrays st0 d = z" "arrays st0 p = pv" "objects st0 = objects st" "lim st0 = Suc d"
    using dp by (simp_all add: st0_def pv_def)
  have frame0: "\<forall>q. q \<noteq> d \<longrightarrow> arrays st0 q = arrays st q" by (simp add: st0_def)
  have lenb: "length (bodies_of st bodies) = length bodies" by (simp add: bodies_of_def)
  have unfold_st: "n_body_func_st rnd t p bodies st =
      (case set_slice 0 (length z) 4 z (get_slice 1 (length pv) 4 pv) of
         Inl e \<Rightarrow> (Inl e, st0)
       | Inr a1 \<Rightarrow>
           (case set_slice 2 (length a1) 4 a1 (get_slice 3 (length pv) 4 pv) of
              Inl e \<Rightarrow> (Inl e, write_array d a1 st0)
            | Inr a2 \<Rightarrow>
                (case outer_loop_st rnd (enumerate_list bodies) p (enumerate_list bodies) d
                        (write_array d a2 st0) of
                   (Inl e, st3) \<Rightarrow> (Inl e, st3)
                 | (Inr u, st3) \<Rightarrow> (Inr d, st3))))"
    using dp
    by (simp add: n_body_func_st_def new_array_def Let_def d_def [symmetric] z_def [symmetric]
        st0_def [symmetric] st0 write_array_simps split: sum.splits)
  have unfold_pure: "n_body_func rnd t pv (bodies_of st bodies) =
      (case set_slice 0 (length z) 4 z (get_slice 1 (length pv) 4 pv) of
         Inl e \<Rightarrow> Inl e
       | Inr a1 \<Rightarrow>
           (case set_slice 2 (length a1) 4 a1 (get_slice 3 (length pv) 4 pv) of
              Inl e \<Rightarrow> Inl e
            | Inr a2 \<Rightarrow>
                outer_loop rnd (enumerate_list (bodies_of st bodies)) pv
                  (enumerate_list (bodies_of st bodies)) a2))"
    by (simp add: n_body_func_def Let_def lenb z_def)
  have wr: "objects (write_array d a st0) = objects st"
    "\<forall>q. q \<noteq> d \<longrightarrow> arrays (write_array d a st0) q = arrays st q"
    "arrays (write_array d a st0) p = pv" "lim (write_array d a st0) = Suc d"
    "arrays (write_array d a st0) d = a" for a
    using dp st0 frame0 by (simp_all add: write_array_def)
  show ?thesis
  proof (cases "set_slice 0 (length z) 4 z (get_slice 1 (length pv) 4 pv)")
    case (Inl e)
    then show ?thesis
      unfolding unfold_st pv_def [symmetric] unfold_pure d_def [symmetric]
      using st0 frame0 by simp
  next
    case a1: (Inr a1)
    show ?thesis
    proof (cases "set_slice 2 (length a1) 4 a1 (get_slice 3 (length pv) 4 pv)")
      case (Inl e)
      then show ?thesis
        unfolding unfold_st pv_def [symmetric] unfold_pure d_def [symmetric]
        using a1 wr by simp
    next
      case a2: (Inr a2)
      let ?st2 = "write_array d a2 st0"
      let ?run = "outer_loop_st rnd (enumerate_list bodies) p (enumerate_list bodies) d ?st2"
      from outer_loop_st_eq [OF dp, of rnd "enumerate_list bodies" "enumerate_list bodies" ?st2]
      obtain a' where
        fin: "snd ?run = write_array d a' ?st2"
        and res: "case outer_loop rnd (deref ?st2 (enumerate_list bodies)) (arrays ?st2 p)
                         (deref ?st2 (enumerate_list bodies)) (arrays ?st2 d) of
                    Inl e \<Rightarrow> fst ?run = Inl e
                  | Inr a \<Rightarrow> fst ?run = Inr () \<and> a' = a"
        by (elim exE conjE)
      have de: "deref ?st2 (enumerate_list bodies) = enumerate_list (bodies_of st bodies)"
        by (simp add: deref_enumerate bodies_of_def wr)
      have fin': "snd ?run = write_array d a' st0"
        using fin by (simp add: write_array_simps)
      obtain r3 st3 where run: "?run = (r3, st3)" by (cases ?run)
      have st3: "st3 = write_array d a' st0" using fin' run by simp
      from res have res': "case outer_loop rnd (enumerate_list (bodies_of st bodies)) pv
                         (enumerate_list (bodies_of st bodies)) a2 of
                    Inl e \<Rightarrow> r3 = Inl e
                  | Inr a \<Rightarrow> r3 = Inr () \<and> a' = a"
        unfolding de wr run by (simp split: sum.splits)
      show ?thesis
        unfolding unfold_st pv_def [symmetric] unfold_pure d_def [symmetric]
        using a1 a2 run res' wr [of a']
        by (simp add: st3 split: sum.splits)
    qed
  qed
qed


theorem n_body_func_frame_witness:
  "(0::nat) < lim \<lparr>arrays = (\<lambda>q. [])(0 := [Fin 1, Fin 3, Fin 2, Fin 4]),
               objects = (\<lambda>q. Body_init (Fin 1) (Fin 3) (Fin 2) (Fin 4) (Fin 5) ''a''), lim = 1\<rparr> \<and>
   fst (n_body_func_st round64 0 0 [0]
          \<lparr>arrays = (\<lambda>q. [])(0 := [Fin 1, Fin 3, Fin 2, Fin 4]),
             objects = (\<lambda>q. Body_init (Fin 1) (Fin 3) (Fin 2) (Fin 4) (Fin 5) ''a''), lim = 1\<rparr>) = Inr 1 \<and>
   arrays (snd (n_body_func_st round64 0 0 [0]
          \<lparr>arrays = (\<lambda>q. [])(0 := [Fin 1, Fin 3, Fin 2, Fin 4]),
             objects = (\<lambda>q. Body_init (Fin 1) (Fin 3) (Fin 2) (Fin 4) (Fin 5) ''a''), lim = 1\<rparr>)) 1 =
     [Fin 3, Fin 0, Fin 4, Fin 0] \<and>
   arrays (snd (n_body_func_st round64 0 0 [0]
          \<lparr>arrays = (\<lambda>q. [])(0 := [Fin 1, Fin 3, Fin 2, Fin 4]),
             objects = (\<lambda>q. Body_init (Fin 1) (Fin 3) (Fin 2) (Fin 4) (Fin 5) ''a''), lim = 1\<rparr>)) 0 =
     [Fin 1, Fin 3, Fin 2, Fin 4] \<and>
   objects (snd (n_body_func_st round64 0 0 [0]
          \<lparr>arrays = (\<lambda>q. [])(0 := [Fin 1, Fin 3, Fin 2, Fin 4]),
             objects = (\<lambda>q. Body_init (Fin 1) (Fin 3) (Fin 2) (Fin 4) (Fin 5) ''a''), lim = 1\<rparr>)) 0 =
     Body_init (Fin 1) (Fin 3) (Fin 2) (Fin 4) (Fin 5) ''a''"
proof -
  have h: "0 < lim \<lparr>arrays = (\<lambda>q. [])(0 := [Fin 1, Fin 3, Fin 2, Fin 4]),
               objects = (\<lambda>q. Body_init (Fin 1) (Fin 3) (Fin 2) (Fin 4) (Fin 5) ''a''), lim = 1\<rparr>"
    by simp
  from n_body_func_frame [OF h, of round64 0 "[0]"] show ?thesis
    by (simp add: bodies_of_def n_body_func_single)
qed

end
